theory Spec2Isabelle
  imports Main
begin

section \<open>Data model\<close>

text \<open>
  Control ids are the opaque strings of the source (\<^verbatim>\<open>bank:<page>-<bank>\<close>,
  \<^verbatim>\<open>trigger:<id>\<close>). Delays are JavaScript numbers, that is IEEE doubles, with
  fractions, rounding, infinities and NaN. Their type is the parameter \<open>'n\<close> of the
  model, and the three operations the scheduler applies to them (the literal \<^verbatim>\<open>0\<close>,
  \<^verbatim>\<open>+\<close> and \<^verbatim>\<open>> 0\<close>) are taken from the environment below, so that what is proved
  holds for the doubles; the examples compute with the integers.
\<close>

type_synonym control_id = string

text \<open>
  The \<^verbatim>\<open>delay\<close> property of an action is an arbitrary JavaScript value. Only three
  classes matter to \<^verbatim>\<open>!action.delay ? 0 : Number(action.delay)\<close> followed by the
  \<^verbatim>\<open>isNaN\<close> test: the value is falsy (undefined, null, zero, NaN, the empty string),
  it is truthy and converts to the number \<open>n\<close>, or it is truthy and converts to NaN.
\<close>

datatype 'n delay_field = DelayAbsent | DelayNumber 'n | DelayNotNumeric

record run_action_extras =
  x_controlId :: control_id
  x_deviceid :: "string option"
  x_page :: "int option"
  x_bank :: "int option"

text \<open>
  Of the options of an action, \<open>act_unlatch\<close> is \<^verbatim>\<open>options.unlatch\<close> as it is passed on
  (\<open>None\<close> when the option is absent), \<open>act_ignoreSelf\<close> the truthiness of
  \<^verbatim>\<open>options.ignoreSelf\<close>; \<open>act_disabled\<close> is the truthiness of \<^verbatim>\<open>disabled\<close>.
\<close>

record 'n action_instance =
  act_id :: string
  act_instance :: string
  act_action :: string
  act_unlatch :: "bool option"
  act_ignoreSelf :: bool
  act_delay :: "'n delay_field"
  act_disabled :: bool

text \<open>
  A timer object as \<^verbatim>\<open>setTimeout\<close> returns it: an identity (the handle) and the closure
  of the callback (the action, the extras and the delay it was armed with; the control id
  of the closure is the value stored beside the timer in \<^verbatim>\<open>#timers_running\<close>).
\<close>

record 'n timer =
  t_handle :: nat
  t_action :: "'n action_instance"
  t_extras :: run_action_extras
  t_delay :: 'n

text \<open>
  How a call completes: it returns a value, or it throws and the exception goes to the
  caller.
\<close>

datatype 'a completion = Returns 'a | Raises string

text \<open>
  Modelled from the spec: the handle of a connector, whose class is not in the sources at
  hand. The specification makes \<^verbatim>\<open>actionRun\<close> asynchronous: the call returns a promise
  that is fulfilled or rejected. A JavaScript function can also throw before it has
  returned its promise (or return a value on which \<^verbatim>\<open>catch\<close> cannot be called, which
  throws at the same place), and a promise can be rejected with any value: with one the
  handler of \<^verbatim>\<open>#runAction\<close> can print (\<open>Reason\<close>, the text of
  \<^verbatim>\<open>e.message ?? e\<close>), or with \<^verbatim>\<open>null\<close> or \<^verbatim>\<open>undefined\<close>, of which
  \<^verbatim>\<open>e.message\<close> cannot be read. An exception thrown inside an asynchronous handler is
  a rejection.
\<close>

datatype rejection = Reason string | Nullish

datatype outcome = Throws string | Fulfils | Rejects rejection

record 'n connection =
  connectionId :: string
  actionRun :: "'n action_instance \<Rightarrow> control_id \<Rightarrow> run_action_extras \<Rightarrow> outcome"

datatype feedback_value = BoolValue bool | AdvancedValue string

record feedback_item =
  fb_controlId :: control_id
  fb_id :: string
  fb_value :: feedback_value

text \<open>
  Modelled from the spec: a control of the registry, whose classes are not in the sources
  at hand. A control is represented by the capabilities the callers probe with
  \<^verbatim>\<open>typeof\<close> and by the running flag the specification gives it.
\<close>

record control =
  has_pressControl :: bool
  has_rotateControl :: bool
  has_setActionsRunning :: bool
  has_feedbacks :: bool
  actions_running :: bool

text \<open>
  The calls that leave the two classes, in the order in which they are made. A press or
  a rotation is forwarded to the control, which reacts inside the call; what the reaction
  logs is kept with the call, so that the log of a caller shows its own calls one by one.

  Modelled from the spec: \<^verbatim>\<open>triggers.emit\<close> belongs to the trigger event bus, which is
  not in the sources at hand; the specification makes it fire-and-forget, and the model
  records the call.
\<close>

datatype 'n event =
    ExecuteAction "'n action_instance" run_action_extras
  | ActionRun string "'n action_instance" control_id run_action_extras
  | LogExecuteError string string
  | UnhandledRejection string
  | LogMissingInstance "'n action_instance"
  | SetTimeout nat "'n action_instance" control_id 'n
  | ClearTimeout nat
  | SetActionsRunning control_id bool "bool option"
  | TriggersEmit string control_id bool "string option"
  | PressControl control_id bool "string option" "'n event list"
  | RotateControl control_id bool "string option" "'n event list"
  | UpdateFeedbackValues control_id string "(string \<times> feedback_value) list"

text \<open>
  The state: \<^verbatim>\<open>#timers_running\<close> (a Map, in insertion order), the supply of fresh timer
  identities, the registry, the rejected promises whose \<^verbatim>\<open>catch\<close> handler has not run
  yet (the connection and the reason), and the log of outgoing calls.

  The registry \<^verbatim>\<open>#controls\<close> is a plain object, and \<open>controls s k\<close> stands for what
  \<^verbatim>\<open>this.#controls[k]\<close> evaluates to, reduced to the capabilities that are probed: a
  value that has none of them (\<^verbatim>\<open>undefined\<close>, or a built-in that the key inherits from
  \<^verbatim>\<open>Object.prototype\<close>) is \<open>None\<close>.
\<close>

record 'n companion =
  timers_running :: "('n timer \<times> control_id) list"
  next_timer :: nat
  controls :: "control_id \<Rightarrow> control option"
  rejections :: "(string \<times> rejection) list"
  events :: "'n event list"

text \<open>
  What the classes import and the sources at hand do not contain is a parameter: the
  arithmetic of the numbers, the connection registry, the grid size, the id codec
  (\<open>ParseControlId\<close> gives the page and bank of an id of type bank, and \<open>None\<close>
  otherwise), the resolution of the page and button options of an internal action
  (\<open>fetchPageAndButton\<close>, which goes through the variable parser and the id codec: the
  page and the control id it returns), what the internal press actions read from the
  variables (whether the condition of a conditional press holds, and the control id made
  of the custom variables' page and button, \<open>None\<close> when one of them is not a number),
  and the reactions of the control classes to a press and to a rotation
  (\<^verbatim>\<open>control.pressControl\<close>, \<^verbatim>\<open>control.rotateControl\<close>). A reaction runs inside the
  call: by the specification a pressed button runs its action set through
  \<^verbatim>\<open>runMultipleActions\<close>, so a reaction may change every part of the state, and it may
  throw.
\<close>

record 'n environment =
  num_zero :: 'n
  num_add :: "'n \<Rightarrow> 'n \<Rightarrow> 'n"
  num_positive :: "'n \<Rightarrow> bool"
  getChild :: "string \<Rightarrow> 'n connection option"
  MAX_BUTTONS :: int
  CreateBankControlId :: "int \<Rightarrow> int \<Rightarrow> control_id"
  ParseControlId :: "control_id \<Rightarrow> (int \<times> int) option"
  fetchPageAndButton :: "'n action_instance \<Rightarrow> run_action_extras \<Rightarrow> int \<times> control_id"
  pressIt :: "'n action_instance \<Rightarrow> bool"
  variableControlId :: "'n action_instance \<Rightarrow> control_id option"
  control_pressed ::
    "control_id \<Rightarrow> bool \<Rightarrow> string option \<Rightarrow> 'n companion \<Rightarrow> 'n companion \<times> unit completion"
  control_rotated ::
    "control_id \<Rightarrow> bool \<Rightarrow> string option \<Rightarrow> 'n companion \<Rightarrow> 'n companion \<times> unit completion"

section \<open>Plain objects\<close>

text \<open>
  The source uses plain objects (\<^verbatim>\<open>{}\<close>) as dictionaries with arbitrary string keys. A
  plain object inherits from \<^verbatim>\<open>Object.prototype\<close>: reading a key that is not an own
  property yields the inherited built-in when the key is one of the names below, and
  \<^verbatim>\<open>undefined\<close> otherwise. The name \<^verbatim>\<open>__proto__\<close> is an accessor: reading it yields
  the prototype whatever was assigned, and assigning to it never creates an own
  property (a number or a boolean is ignored, an object becomes the prototype). The
  other names are writable data properties, which an assignment shadows by an own
  property.
\<close>

definition prototype_names :: "string list" where
  "prototype_names =
     [''constructor'', ''__defineGetter__'', ''__defineSetter__'', ''hasOwnProperty'',
      ''__lookupGetter__'', ''__lookupSetter__'', ''isPrototypeOf'', ''propertyIsEnumerable'',
      ''toString'', ''valueOf'', ''__proto__'', ''toLocaleString'']"

datatype 'v property = Undefined | Own 'v | Inherited

definition get_property :: "(string \<Rightarrow> 'v option) \<Rightarrow> string \<Rightarrow> 'v property" where
  "get_property obj k =
     (if k = ''__proto__'' then Inherited
      else case obj k of
             Some v \<Rightarrow> Own v
           | None \<Rightarrow> if k \<in> set prototype_names then Inherited else Undefined)"

definition set_property :: "(string \<Rightarrow> 'v option) \<Rightarrow> string \<Rightarrow> 'v \<Rightarrow> (string \<Rightarrow> 'v option)" where
  "set_property obj k v = (if k = ''__proto__'' then obj else obj(k \<mapsto> v))"

text \<open>
  Where the source enumerates an object, the own properties are kept as a list in the
  order of their creation; an assignment to an existing key keeps its place.
  \<^verbatim>\<open>Object.entries\<close> lists the keys that are array indices (canonical decimal numerals
  below \<open>2^32 - 1\<close>) first, in ascending numeric order, then the other keys in the order
  of their creation.
\<close>

fun obj_get :: "('k \<times> 'v) list \<Rightarrow> 'k \<Rightarrow> 'v option" where
  "obj_get [] k = None"
| "obj_get ((k', v) # kvs) k = (if k' = k then Some v else obj_get kvs k)"

fun obj_set :: "'k \<Rightarrow> 'v \<Rightarrow> ('k \<times> 'v) list \<Rightarrow> ('k \<times> 'v) list" where
  "obj_set k v [] = [(k, v)]"
| "obj_set k v ((k', v') # kvs) =
     (if k' = k then (k, v) # kvs else (k', v') # obj_set k v kvs)"

definition assign :: "string \<Rightarrow> 'v \<Rightarrow> (string \<times> 'v) list \<Rightarrow> (string \<times> 'v) list" where
  "assign k v obj = (if k = ''__proto__'' then obj else obj_set k v obj)"

definition decimal :: "string \<Rightarrow> nat" where
  "decimal k = foldl (\<lambda>n c. 10 * n + (of_char c - 48)) 0 k"

definition array_index :: "string \<Rightarrow> bool" where
  "array_index k =
     (k \<noteq> [] \<and> list_all (\<lambda>c. c \<in> set ''0123456789'') k \<and> (hd k \<noteq> CHR ''0'' \<or> k = ''0'') \<and>
      decimal k < 4294967295)"

definition object_entries :: "(string \<times> 'v) list \<Rightarrow> (string \<times> 'v) list" where
  "object_entries obj =
     sort_key (\<lambda>(k, v). decimal k) (filter (\<lambda>(k, v). array_index k) obj) @
     filter (\<lambda>(k, v). \<not> array_index k) obj"

section \<open>Controls/Controller.ts\<close>

definition getControl :: "'n companion \<Rightarrow> control_id \<Rightarrow> control option" where
  "getControl s controlId = controls s controlId"

text \<open>
  The call of a method of a control: the reaction runs on the state, and what it logs is
  recorded inside the entry of the call.
\<close>

definition forward ::
  "('n companion \<Rightarrow> 'n companion \<times> unit completion) \<Rightarrow> ('n event list \<Rightarrow> 'n event)
     \<Rightarrow> 'n companion \<Rightarrow> 'n companion \<times> unit completion" where
  "forward reaction call s =
     (case reaction (s\<lparr>events := []\<rparr>) of
        (s', r) \<Rightarrow> (s'\<lparr>events := events s @ [call (events s')]\<rparr>, r))"

definition pressControl ::
  "'n environment \<Rightarrow> 'n companion \<Rightarrow> control_id \<Rightarrow> bool \<Rightarrow> string option
     \<Rightarrow> 'n companion \<times> bool completion" where
  "pressControl env s controlId pressed deviceId =
     (case getControl s controlId of
        None \<Rightarrow> (s, Returns False)
      | Some control \<Rightarrow>
          if has_pressControl control
          then (case forward (control_pressed env controlId pressed deviceId)
                       (PressControl controlId pressed deviceId)
                       (s\<lparr>events := events s @
                            [TriggersEmit ''control_press'' controlId pressed deviceId]\<rparr>) of
                  (s', Returns u) \<Rightarrow> (s', Returns True)
                | (s', Raises e) \<Rightarrow> (s', Raises e))
          else (s, Returns False))"

definition rotateControl ::
  "'n environment \<Rightarrow> 'n companion \<Rightarrow> control_id \<Rightarrow> bool \<Rightarrow> string option
     \<Rightarrow> 'n companion \<times> bool completion" where
  "rotateControl env s controlId direction deviceId =
     (case getControl s controlId of
        None \<Rightarrow> (s, Returns False)
      | Some control \<Rightarrow>
          if has_rotateControl control
          then (case forward (control_rotated env controlId direction deviceId)
                       (RotateControl controlId direction deviceId) s of
                  (s', Returns u) \<Rightarrow> (s', Returns True)
                | (s', Raises e) \<Rightarrow> (s', Raises e))
          else (s, Returns False))"

text \<open>
  The first loop of \<^verbatim>\<open>updateFeedbackValues\<close>. \<^verbatim>\<open>values[item.controlId] || {}\<close> is the
  group of the control when the id is an own property of \<^verbatim>\<open>values\<close>, and a fresh
  object when the id is unknown; for an id among the names of \<^verbatim>\<open>Object.prototype\<close> it
  is a built-in object of the runtime, into which the source then writes: that is
  outside what is modelled, and the result is \<open>None\<close>.
\<close>

fun group_values ::
  "feedback_item list \<Rightarrow> (control_id \<times> (string \<times> feedback_value) list) list
     \<Rightarrow> (control_id \<times> (string \<times> feedback_value) list) list option" where
  "group_values [] vals = Some vals"
| "group_values (item # result) vals =
     (case obj_get vals (fb_controlId item) of
        Some objForControl \<Rightarrow>
          group_values result
            (obj_set (fb_controlId item) (assign (fb_id item) (fb_value item) objForControl) vals)
      | None \<Rightarrow>
          if fb_controlId item \<in> set prototype_names then None
          else group_values result
                 (obj_set (fb_controlId item) (assign (fb_id item) (fb_value item) []) vals))"

text \<open>
  The second loop. Modelled from the spec: \<^verbatim>\<open>control.feedbacks.updateFeedbackValues\<close>
  belongs to the control classes, which are not in the sources at hand; it stores the
  values, and the model records the call with the own properties of the object it is
  given, as \<^verbatim>\<open>Object.entries\<close> lists them.
\<close>

fun pass_values ::
  "string \<Rightarrow> (control_id \<times> (string \<times> feedback_value) list) list \<Rightarrow> 'n companion \<Rightarrow> 'n companion" where
  "pass_values instanceId [] s = s"
| "pass_values instanceId ((controlId, newValues) # rest) s =
     pass_values instanceId rest
       (case getControl s controlId of
          None \<Rightarrow> s
        | Some control \<Rightarrow>
            if has_feedbacks control
            then s\<lparr>events := events s @
                     [UpdateFeedbackValues controlId instanceId (object_entries newValues)]\<rparr>
            else s)"

definition updateFeedbackValues ::
  "'n companion \<Rightarrow> string \<Rightarrow> feedback_item list \<Rightarrow> 'n companion option" where
  "updateFeedbackValues s instanceId result =
     (case group_values result [] of
        None \<Rightarrow> None
      | Some vals \<Rightarrow> Some (pass_values instanceId (object_entries vals) s))"

section \<open>Controls/ActionRunner.ts\<close>

text \<open>
  Modelled from the spec: \<^verbatim>\<open>setActionsRunning\<close> of the control classes, which are not in
  the sources at hand. The specification gives the control a running flag that the
  scheduler sets through this operation.
\<close>

definition setActionsRunning :: "control \<Rightarrow> bool \<Rightarrow> bool option \<Rightarrow> control" where
  "setActionsRunning control running skipUp = control\<lparr>actions_running := running\<rparr>"

definition setControlIsRunning ::
  "'n companion \<Rightarrow> control_id \<Rightarrow> bool \<Rightarrow> bool option \<Rightarrow> 'n companion" where
  "setControlIsRunning s controlId running skipUp =
     (case getControl s controlId of
        None \<Rightarrow> s
      | Some control \<Rightarrow>
          if has_setActionsRunning control
          then s\<lparr>controls := (controls s)(controlId \<mapsto> setActionsRunning control running skipUp),
                 events := events s @ [SetActionsRunning controlId running skipUp]\<rparr>
          else s)"

text \<open>A JavaScript Set keeps the order of first insertion.\<close>

definition set_add :: "'a \<Rightarrow> 'a list \<Rightarrow> 'a list" where
  "set_add x xs = (if x \<in> set xs then xs else xs @ [x])"

fun affected_controls :: "('n timer \<times> control_id) list \<Rightarrow> control_id list \<Rightarrow> control_id list" where
  "affected_controls [] affectedControlIds = affectedControlIds"
| "affected_controls ((tm, controlId) # rest) affectedControlIds =
     affected_controls rest (set_add controlId affectedControlIds)"

fun redraw_controls :: "control_id list \<Rightarrow> 'n companion \<Rightarrow> 'n companion" where
  "redraw_controls [] s = s"
| "redraw_controls (controlId # rest) s =
     redraw_controls rest (setControlIsRunning s controlId False None)"

definition abortAllDelayed :: "'n companion \<Rightarrow> 'n companion" where
  "abortAllDelayed s =
     redraw_controls (affected_controls (timers_running s) [])
       (s\<lparr>timers_running := [],
          events := events s @ map (\<lambda>(tm, controlId). ClearTimeout (t_handle tm)) (timers_running s)\<rparr>)"

text \<open>
  The loop of \<^verbatim>\<open>abortControlDelayed\<close> deletes and clears every entry whose value is the
  control id (deleting the current entry of a Map does not disturb the iteration); the
  update of the control follows whether or not an entry was found. \<open>skipUp\<close> is \<open>None\<close>
  when the caller passes \<^verbatim>\<open>undefined\<close>.
\<close>

definition abortControlDelayed :: "'n companion \<Rightarrow> control_id \<Rightarrow> bool option \<Rightarrow> 'n companion" where
  "abortControlDelayed s controlId skipUp =
     setControlIsRunning
       (s\<lparr>timers_running :=
            filter (\<lambda>(tm, timerControlId). timerControlId \<noteq> controlId) (timers_running s),
          events := events s @
            map (\<lambda>(tm, timerControlId). ClearTimeout (t_handle tm))
              (filter (\<lambda>(tm, timerControlId). timerControlId = controlId) (timers_running s))\<rparr>)
       controlId False skipUp"

fun abortPage_loop ::
  "'n environment \<Rightarrow> int \<Rightarrow> control_id list option \<Rightarrow> int list \<Rightarrow> 'n companion \<Rightarrow> 'n companion" where
  "abortPage_loop env page skipControlIds [] s = s"
| "abortPage_loop env page skipControlIds (bank # banks) s =
     (let controlId = CreateBankControlId env page bank
      in if (case skipControlIds of None \<Rightarrow> False | Some ids \<Rightarrow> controlId \<in> set ids)
         then abortPage_loop env page skipControlIds banks s
         else abortPage_loop env page skipControlIds banks
                (abortControlDelayed s controlId (Some False)))"

definition abortPageDelayed ::
  "'n environment \<Rightarrow> 'n companion \<Rightarrow> int \<Rightarrow> control_id list option \<Rightarrow> 'n companion" where
  "abortPageDelayed env s page skipControlIds =
     abortPage_loop env page skipControlIds [1..MAX_BUTTONS env] s"

text \<open>
  The branches of \<^verbatim>\<open>executeAction\<close> of Internal/Controls.ts discard the value that
  \<^verbatim>\<open>pressControl\<close> and \<^verbatim>\<open>rotateControl\<close> return; a press followed by a release, as
  three of the branches make it, stops at the first exception.
\<close>

definition discard :: "'s \<times> 'a completion \<Rightarrow> 's \<times> unit completion" where
  "discard r = (case r of (s, Returns v) \<Rightarrow> (s, Returns ()) | (s, Raises e) \<Rightarrow> (s, Raises e))"

definition press_and_release ::
  "'n environment \<Rightarrow> 'n companion \<Rightarrow> control_id \<Rightarrow> string option \<Rightarrow> 'n companion \<times> unit completion" where
  "press_and_release env s controlId deviceid =
     (case pressControl env s controlId True deviceid of
        (s1, Raises e) \<Rightarrow> (s1, Raises e)
      | (s1, Returns v) \<Rightarrow> discard (pressControl env s1 controlId False deviceid))"

text \<open>
  Modelled from the spec: the internal catalogue, \<^verbatim>\<open>internalModule.executeAction\<close>, whose
  class is not in the sources at hand, executes the action synchronously; it hands it to
  \<^verbatim>\<open>executeAction\<close> of Internal/Controls.ts, which is. Of that function the branches
  that call back into this class or into the controller are kept, in the order of the
  source; the other branches (the style and the step actions) act on the control classes
  only.
\<close>

definition executeAction ::
  "'n environment \<Rightarrow> 'n companion \<Rightarrow> 'n action_instance \<Rightarrow> run_action_extras
     \<Rightarrow> 'n companion \<times> unit completion" where
  "executeAction env s action extras =
     (if act_action action = ''button_pressrelease'' then
        press_and_release env s (snd (fetchPageAndButton env action extras)) (x_deviceid extras)
      else if act_action action = ''button_pressrelease_condition'' then
        (if pressIt env action
         then press_and_release env s (snd (fetchPageAndButton env action extras)) (x_deviceid extras)
         else (s, Returns ()))
      else if act_action action = ''button_pressrelease_condition_variable'' then
        (if pressIt env action
         then (case variableControlId env action of
                 None \<Rightarrow> (s, Returns ())
               | Some controlId \<Rightarrow> press_and_release env s controlId (x_deviceid extras))
         else (s, Returns ()))
      else if act_action action = ''button_press'' then
        discard (pressControl env s (snd (fetchPageAndButton env action extras)) True (x_deviceid extras))
      else if act_action action = ''button_release'' then
        discard (pressControl env s (snd (fetchPageAndButton env action extras)) False (x_deviceid extras))
      else if act_action action = ''button_rotate_left'' then
        discard (rotateControl env s (snd (fetchPageAndButton env action extras)) False (x_deviceid extras))
      else if act_action action = ''button_rotate_right'' then
        discard (rotateControl env s (snd (fetchPageAndButton env action extras)) True (x_deviceid extras))
      else if act_action action = ''panic_bank'' then
        (abortControlDelayed s (snd (fetchPageAndButton env action extras)) (act_unlatch action),
         Returns ())
      else if act_action action = ''panic_page'' then
        (abortPageDelayed env s (fst (fetchPageAndButton env action extras))
           (if act_ignoreSelf action then Some [snd (fetchPageAndButton env action extras)] else None),
         Returns ())
      else if act_action action = ''panic'' then
        (abortAllDelayed s, Returns ())
      else (s, Returns ()))"

text \<open>
  \<^verbatim>\<open>#runAction\<close> has no \<^verbatim>\<open>try\<close>: an exception of the internal catalogue or of the call
  of \<^verbatim>\<open>actionRun\<close> itself goes to the caller. \<^verbatim>\<open>catch\<close> registers the handler on the
  promise that \<^verbatim>\<open>actionRun\<close> returned; the handler of a rejected promise runs later,
  when the call stack has emptied, so the rejection is queued here and handled by
  \<open>settle\<close>.
\<close>

definition runAction ::
  "'n environment \<Rightarrow> 'n companion \<Rightarrow> 'n action_instance \<Rightarrow> control_id \<Rightarrow> run_action_extras
     \<Rightarrow> 'n companion \<times> unit completion" where
  "runAction env s action controlId extras =
     (if act_instance action = ''internal''
      then executeAction env (s\<lparr>events := events s @ [ExecuteAction action extras]\<rparr>) action extras
      else
        (case getChild env (act_instance action) of
           Some inst \<Rightarrow>
             (case actionRun inst action controlId extras of
                Throws e \<Rightarrow>
                  (s\<lparr>events := events s @ [ActionRun (connectionId inst) action controlId extras]\<rparr>,
                   Raises e)
              | Fulfils \<Rightarrow>
                  (s\<lparr>events := events s @ [ActionRun (connectionId inst) action controlId extras]\<rparr>,
                   Returns ())
              | Rejects e \<Rightarrow>
                  (s\<lparr>rejections := rejections s @ [(connectionId inst, e)],
                     events := events s @ [ActionRun (connectionId inst) action controlId extras]\<rparr>,
                   Returns ()))
         | None \<Rightarrow> (s\<lparr>events := events s @ [LogMissingInstance action]\<rparr>, Returns ())))"



definition coerce_delay :: "'n environment \<Rightarrow> 'n action_instance \<Rightarrow> 'n" where
  "coerce_delay env action =
     (case act_delay action of
        DelayAbsent \<Rightarrow> num_zero env
      | DelayNumber n \<Rightarrow> n
      | DelayNotNumeric \<Rightarrow> num_zero env)"

text \<open>
  The first loop of \<^verbatim>\<open>runMultipleActions\<close>. \<^verbatim>\<open>effective_delays\<close> is a plain object
  that is written with numbers and never enumerated.
\<close>

fun effective_delays_loop ::
  "'n environment \<Rightarrow> bool \<Rightarrow> 'n action_instance list \<Rightarrow> (string \<Rightarrow> 'n option) \<times> 'n
     \<Rightarrow> (string \<Rightarrow> 'n option) \<times> 'n" where
  "effective_delays_loop env relative_delay [] (effective_delays, tmp_delay) =
     (effective_delays, tmp_delay)"
| "effective_delays_loop env relative_delay (action # rest) (effective_delays, tmp_delay) =
     (let this_delay = coerce_delay env action;
          tmp_delay' = (if relative_delay then num_add env tmp_delay this_delay else this_delay)
      in effective_delays_loop env relative_delay rest
           (set_property effective_delays (act_id action) tmp_delay', tmp_delay'))"

definition effective_delays ::
  "'n environment \<Rightarrow> bool \<Rightarrow> 'n action_instance list \<Rightarrow> string \<Rightarrow> 'n option" where
  "effective_delays env relative_delay actions =
     fst (effective_delays_loop env relative_delay actions (Map.empty, num_zero env))"

text \<open>
  \<^verbatim>\<open>delay_time\<close> of the second loop: \<^verbatim>\<open>undefined\<close> is replaced by \<^verbatim>\<open>0\<close>, anything else
  is taken as it is read. \<^verbatim>\<open>delay_time > 0\<close> holds of no built-in object.
\<close>

definition delay_time ::
  "'n environment \<Rightarrow> (string \<Rightarrow> 'n option) \<Rightarrow> 'n action_instance \<Rightarrow> 'n property" where
  "delay_time env tab action =
     (case get_property tab (act_id action) of
        Undefined \<Rightarrow> Own (num_zero env)
      | Own d \<Rightarrow> Own d
      | Inherited \<Rightarrow> Inherited)"

definition make_extras :: "'n environment \<Rightarrow> control_id \<Rightarrow> string option \<Rightarrow> run_action_extras" where
  "make_extras env controlId deviceid =
     (case ParseControlId env controlId of
        Some (page, bank) \<Rightarrow>
          \<lparr>x_controlId = controlId, x_deviceid = deviceid, x_page = Some page, x_bank = Some bank\<rparr>
      | None \<Rightarrow>
          \<lparr>x_controlId = controlId, x_deviceid = deviceid, x_page = None, x_bank = None\<rparr>)"

definition set_timeout ::
  "'n companion \<Rightarrow> 'n action_instance \<Rightarrow> control_id \<Rightarrow> run_action_extras \<Rightarrow> 'n \<Rightarrow> 'n companion" where
  "set_timeout s action controlId extras d =
     s\<lparr>timers_running := timers_running s @
          [(\<lparr>t_handle = next_timer s, t_action = action, t_extras = extras, t_delay = d\<rparr>, controlId)],
       next_timer := Suc (next_timer s),
       events := events s @ [SetTimeout (next_timer s) action controlId d]\<rparr>"

text \<open>
  The second loop. The result carries \<^verbatim>\<open>has_delayed\<close>; an exception of an action that
  is run at once ends the loop.
\<close>

fun run_loop ::
  "'n environment \<Rightarrow> control_id \<Rightarrow> run_action_extras \<Rightarrow> (string \<Rightarrow> 'n option)
     \<Rightarrow> 'n action_instance list \<Rightarrow> 'n companion \<times> bool \<Rightarrow> ('n companion \<times> bool) \<times> unit completion" where
  "run_loop env controlId extra2 tab [] (s, has_delayed) = ((s, has_delayed), Returns ())"
| "run_loop env controlId extra2 tab (action # rest) (s, has_delayed) =
     (case delay_time env tab action of
        Own d \<Rightarrow>
          if num_positive env d
          then run_loop env controlId extra2 tab rest (set_timeout s action controlId extra2 d, True)
          else (case runAction env s action controlId extra2 of
                  (s', Returns u) \<Rightarrow> run_loop env controlId extra2 tab rest (s', has_delayed)
                | (s', Raises e) \<Rightarrow> ((s', has_delayed), Raises e))
      | other \<Rightarrow>
          (case runAction env s action controlId extra2 of
             (s', Returns u) \<Rightarrow> run_loop env controlId extra2 tab rest (s', has_delayed)
           | (s', Raises e) \<Rightarrow> ((s', has_delayed), Raises e)))"

definition enabled_actions :: "'n action_instance list \<Rightarrow> 'n action_instance list" where
  "enabled_actions actions0 = filter (\<lambda>act. \<not> act_disabled act) actions0"

definition runMultipleActions ::
  "'n environment \<Rightarrow> 'n companion \<Rightarrow> 'n action_instance list \<Rightarrow> control_id \<Rightarrow> bool \<Rightarrow> string option
     \<Rightarrow> 'n companion \<times> unit completion" where
  "runMultipleActions env s actions0 controlId relative_delay deviceid =
     (if enabled_actions actions0 = [] then (s, Returns ())
      else
        (case run_loop env controlId (make_extras env controlId deviceid)
                (effective_delays env relative_delay (enabled_actions actions0))
                (enabled_actions actions0) (s, False) of
           ((s', has_delayed), Returns u) \<Rightarrow>
             (if has_delayed then setControlIsRunning s' controlId True None else s', Returns ())
         | ((s', has_delayed), Raises e) \<Rightarrow> (s', Raises e)))"

text \<open>
  The callback that \<^verbatim>\<open>runMultipleActions\<close> hands to \<^verbatim>\<open>setTimeout\<close>, and its firing. Every
  removal from \<^verbatim>\<open>#timers_running\<close> goes with \<^verbatim>\<open>clearTimeout\<close> or happens in the timer's
  own callback, so a timer can fire exactly while it is a key of the map; firing a
  timer that is not pending gives \<open>None\<close>. An exception of the action ends the callback
  before the timer is deleted; it goes to the runtime, and the timers that are still
  pending fire on.
\<close>

definition delete_timer :: "nat \<Rightarrow> ('n timer \<times> control_id) list \<Rightarrow> ('n timer \<times> control_id) list" where
  "delete_timer h entries = filter (\<lambda>(tm, controlId). t_handle tm \<noteq> h) entries"

definition timer_callback ::
  "'n environment \<Rightarrow> 'n companion \<Rightarrow> 'n timer \<Rightarrow> control_id \<Rightarrow> 'n companion \<times> unit completion" where
  "timer_callback env s tm controlId =
     (case runAction env s (t_action tm) controlId (t_extras tm) of
        (s1, Raises e) \<Rightarrow> (s1, Raises e)
      | (s1, Returns u) \<Rightarrow>
          (let s2 = s1\<lparr>timers_running := delete_timer (t_handle tm) (timers_running s1)\<rparr>
           in if find (\<lambda>v. v = controlId) (map snd (timers_running s2)) = None
              then (setControlIsRunning s2 controlId False None, Returns ())
              else (s2, Returns ())))"

definition fire :: "'n environment \<Rightarrow> 'n companion \<Rightarrow> nat \<Rightarrow> ('n companion \<times> unit completion) option" where
  "fire env s h =
     (case find (\<lambda>(tm, controlId). t_handle tm = h) (timers_running s) of
        None \<Rightarrow> None
      | Some (tm, controlId) \<Rightarrow> Some (timer_callback env s tm controlId))"


section \<open>Observations on the log\<close>

text \<open>
  The entries that \<^verbatim>\<open>#runAction\<close> makes for an action: the call of the internal
  catalogue, the call of \<^verbatim>\<open>actionRun\<close> of the connection, or the log line for a missing
  connection. \<open>dispatch_of\<close> is the entry that is due for an action.
\<close>

fun is_dispatch :: "'n event \<Rightarrow> bool" where
  "is_dispatch (ExecuteAction a x) = True"
| "is_dispatch (ActionRun i a k x) = True"
| "is_dispatch (LogMissingInstance a) = True"
| "is_dispatch e = False"

definition dispatched :: "'n event list \<Rightarrow> 'n event list" where
  "dispatched evs = filter is_dispatch evs"

definition dispatch_of ::
  "'n environment \<Rightarrow> control_id \<Rightarrow> run_action_extras \<Rightarrow> 'n action_instance \<Rightarrow> 'n event" where
  "dispatch_of env controlId extras action =
     (if act_instance action = ''internal'' then ExecuteAction action extras
      else case getChild env (act_instance action) of
             Some inst \<Rightarrow> ActionRun (connectionId inst) action controlId extras
           | None \<Rightarrow> LogMissingInstance action)"

fun scheduled :: "'n event list \<Rightarrow> ('n action_instance \<times> 'n) list" where
  "scheduled [] = []"
| "scheduled (SetTimeout h a k d # evs) = (a, d) # scheduled evs"
| "scheduled (e # evs) = scheduled evs"

definition running_calls :: "control_id \<Rightarrow> bool \<Rightarrow> 'n event list \<Rightarrow> nat" where
  "running_calls controlId running evs =
     length (filter (\<lambda>e. case e of SetActionsRunning k r u \<Rightarrow> k = controlId \<and> r = running | _ \<Rightarrow> False) evs)"

definition owns_timer :: "'n companion \<Rightarrow> control_id \<Rightarrow> bool" where
  "owns_timer s controlId = (controlId \<in> set (map snd (timers_running s)))"

definition is_running :: "'n companion \<Rightarrow> control_id \<Rightarrow> bool" where
  "is_running s controlId =
     (case getControl s controlId of None \<Rightarrow> False | Some control \<Rightarrow> actions_running control)"

definition can_show_running :: "'n companion \<Rightarrow> control_id \<Rightarrow> bool" where
  "can_show_running s controlId =
     (case getControl s controlId of None \<Rightarrow> False | Some control \<Rightarrow> has_setActionsRunning control)"

text \<open>
  Whether the second loop of \<^verbatim>\<open>runMultipleActions\<close> arms a timer for an action
  (\<^verbatim>\<open>delay_time > 0\<close>), and the delay of the timer.
\<close>

definition timed :: "'n environment \<Rightarrow> (string \<Rightarrow> 'n option) \<Rightarrow> 'n action_instance \<Rightarrow> bool" where
  "timed env tab action =
     (case delay_time env tab action of Own d \<Rightarrow> num_positive env d | other \<Rightarrow> False)"

definition timer_delay :: "'n environment \<Rightarrow> (string \<Rightarrow> 'n option) \<Rightarrow> 'n action_instance \<Rightarrow> 'n" where
  "timer_delay env tab action =
     (case delay_time env tab action of Own d \<Rightarrow> d | other \<Rightarrow> num_zero env)"

text \<open>
  The value of \<^verbatim>\<open>tmp_delay\<close> when the first loop of \<^verbatim>\<open>runMultipleActions\<close> has
  processed position \<open>i\<close> of the list: the effective delay computed for that position.
\<close>

definition computed_delay :: "'n environment \<Rightarrow> bool \<Rightarrow> 'n action_instance list \<Rightarrow> nat \<Rightarrow> 'n" where
  "computed_delay env relative_delay actions i =
     snd (effective_delays_loop env relative_delay (take (Suc i) actions) (Map.empty, num_zero env))"


text \<open>The trigger events, and the calls a control's feedback store receives.\<close>

fun trigger_events :: "'n event list \<Rightarrow> 'n event list" where
  "trigger_events [] = []"
| "trigger_events (TriggersEmit n c p d # evs) = TriggersEmit n c p d # trigger_events evs"
| "trigger_events (e # evs) = trigger_events evs"

fun delivered :: "control_id \<Rightarrow> 'n event list \<Rightarrow> (string \<times> (string \<times> feedback_value) list) list" where
  "delivered c [] = []"
| "delivered c (UpdateFeedbackValues k i vs # evs) =
     (if k = c then (i, vs) # delivered c evs else delivered c evs)"
| "delivered c (e # evs) = delivered c evs"

definition can_press :: "'n companion \<Rightarrow> control_id \<Rightarrow> bool" where
  "can_press s controlId =
     (case getControl s controlId of None \<Rightarrow> False | Some control \<Rightarrow> has_pressControl control)"

definition can_rotate :: "'n companion \<Rightarrow> control_id \<Rightarrow> bool" where
  "can_rotate s controlId =
     (case getControl s controlId of None \<Rightarrow> False | Some control \<Rightarrow> has_rotateControl control)"

definition can_update_feedbacks :: "'n companion \<Rightarrow> control_id \<Rightarrow> bool" where
  "can_update_feedbacks s controlId =
     (case getControl s controlId of None \<Rightarrow> False | Some control \<Rightarrow> has_feedbacks control)"

text \<open>
  The specification's wording of the grouping: the mapping from feedback id to value
  that the tuples of one control make, a later tuple overriding an earlier one with the
  same feedback id.
\<close>

definition group_of :: "control_id \<Rightarrow> feedback_item list \<Rightarrow> string \<Rightarrow> feedback_value option" where
  "group_of c batch =
     map_of (rev (map (\<lambda>item. (fb_id item, fb_value item))
                    (filter (\<lambda>item. fb_controlId item = c) batch)))"

text \<open>The group of one control in the table that \<^verbatim>\<open>updateFeedbackValues\<close> builds.\<close>

definition grp_of ::
  "(control_id \<times> (string \<times> feedback_value) list) list \<Rightarrow> control_id \<Rightarrow> (string \<times> feedback_value) list" where
  "grp_of vals c = (case obj_get vals c of None \<Rightarrow> [] | Some g \<Rightarrow> g)"

text \<open>The timers that were cancelled, by handle.\<close>

fun cleared :: "'n event list \<Rightarrow> nat list" where
  "cleared [] = []"
| "cleared (ClearTimeout h # evs) = h # cleared evs"
| "cleared (e # evs) = cleared evs"

text \<open>
  The handles of the pending timers and those owned by one control; the actions of the
  internal catalogue that call back into the abort operations, and those that press or
  rotate a control; whether the call of \<^verbatim>\<open>actionRun\<close> for an action throws; and the
  rejection that is queued for an action.
\<close>

definition pending_handles :: "'n companion \<Rightarrow> nat list" where
  "pending_handles s = map (\<lambda>(tm, k). t_handle tm) (timers_running s)"


definition aborts :: "'n action_instance \<Rightarrow> bool" where
  "aborts a =
     (act_instance a = ''internal'' \<and>
      (act_action a = ''panic_bank'' \<or> act_action a = ''panic_page'' \<or> act_action a = ''panic''))"

definition presses :: "'n action_instance \<Rightarrow> bool" where
  "presses a =
     (act_instance a = ''internal'' \<and>
      (act_action a = ''button_pressrelease'' \<or> act_action a = ''button_pressrelease_condition'' \<or>
       act_action a = ''button_pressrelease_condition_variable'' \<or> act_action a = ''button_press'' \<or>
       act_action a = ''button_release'' \<or> act_action a = ''button_rotate_left'' \<or>
       act_action a = ''button_rotate_right''))"

definition throws ::
  "'n environment \<Rightarrow> control_id \<Rightarrow> run_action_extras \<Rightarrow> 'n action_instance \<Rightarrow> bool" where
  "throws env controlId extras a =
     (act_instance a \<noteq> ''internal'' \<and>
      (case getChild env (act_instance a) of
         None \<Rightarrow> False
       | Some inst \<Rightarrow> (case actionRun inst a controlId extras of Throws e \<Rightarrow> True | other \<Rightarrow> False)))"

definition rejected ::
  "'n environment \<Rightarrow> control_id \<Rightarrow> run_action_extras \<Rightarrow> 'n action_instance
     \<Rightarrow> (string \<times> rejection) list" where
  "rejected env controlId extras a =
     (if act_instance a = ''internal'' then []
      else case getChild env (act_instance a) of
             None \<Rightarrow> []
           | Some inst \<Rightarrow>
               (case actionRun inst a controlId extras of
                  Rejects e \<Rightarrow> [(connectionId inst, e)]
                | other \<Rightarrow> []))"

definition calm ::
  "'n environment \<Rightarrow> control_id \<Rightarrow> run_action_extras \<Rightarrow> 'n action_instance \<Rightarrow> bool" where
  "calm env controlId extras a =
     (\<not> aborts a \<and> \<not> presses a \<and> \<not> throws env controlId extras a)"


text \<open>
  The invariant of the specification on the running flag, the well-formedness of the
  pending set (the keys of a Map are distinct, and every handle was handed out), and the
  states reached from a state \<open>s0\<close> by calls of \<^verbatim>\<open>runMultipleActions\<close> whose enabled
  actions neither abort delayed actions, nor press or rotate a control, nor throw, by
  timer firings and by the three abort operations.
\<close>

definition indicator_inv :: "'n companion \<Rightarrow> bool" where
  "indicator_inv s = (\<forall>c. can_show_running s c \<longrightarrow> is_running s c = owns_timer s c)"

definition timers_wf :: "'n companion \<Rightarrow> bool" where
  "timers_wf s =
     (distinct (pending_handles s) \<and> list_all (\<lambda>h. h < next_timer s) (pending_handles s))"

definition pending_calm :: "'n environment \<Rightarrow> 'n companion \<Rightarrow> bool" where
  "pending_calm env s =
     list_all (\<lambda>(tm, k). calm env k (t_extras tm) (t_action tm)) (timers_running s)"

definition steady :: "'n environment \<Rightarrow> 'n companion \<Rightarrow> bool" where
  "steady env s = (timers_wf s \<and> pending_calm env s \<and> indicator_inv s)"

inductive reaches :: "'n environment \<Rightarrow> 'n companion \<Rightarrow> 'n companion \<Rightarrow> bool" for env s0 where
  start: "reaches env s0 s0"
| run: "reaches env s0 s \<Longrightarrow>
        list_all (calm env controlId (make_extras env controlId deviceid)) (enabled_actions actions0) \<Longrightarrow>
        reaches env s0 (fst (runMultipleActions env s actions0 controlId relative_delay deviceid))"
| timer: "reaches env s0 s \<Longrightarrow> fire env s h = Some (s', r) \<Longrightarrow> reaches env s0 s'"
| abort_control: "reaches env s0 s \<Longrightarrow> reaches env s0 (abortControlDelayed s controlId skipUp)"
| abort_page: "reaches env s0 s \<Longrightarrow> reaches env s0 (abortPageDelayed env s page skipControlIds)"
| abort_all: "reaches env s0 s \<Longrightarrow> reaches env s0 (abortAllDelayed s)"

section \<open>Example inputs\<close>

text \<open>
  The examples compute with the integers. The environment has a connection that
  succeeds, one that rejects with a message, one that rejects with \<^verbatim>\<open>undefined\<close> and one
  whose \<^verbatim>\<open>actionRun\<close> throws; its controls do nothing when they are pressed or rotated.
\<close>

definition ex_action :: "string \<Rightarrow> int delay_field \<Rightarrow> bool \<Rightarrow> int action_instance" where
  "ex_action i d dis =
     \<lparr>act_id = i, act_instance = ''conn'', act_action = ''go'', act_unlatch = None,
      act_ignoreSelf = False, act_delay = d, act_disabled = dis\<rparr>"


definition ex_connection :: "string \<Rightarrow> outcome \<Rightarrow> int connection" where
  "ex_connection i r = \<lparr>connectionId = i, actionRun = (\<lambda>a c x. r)\<rparr>"

definition ex_env :: "int environment" where
  "ex_env =
     \<lparr>num_zero = 0, num_add = (\<lambda>a b. a + b), num_positive = (\<lambda>d. 0 < d),
      getChild = (\<lambda>i. if i = ''conn'' then Some (ex_connection ''conn'' Fulfils)
                       else if i = ''bad'' then Some (ex_connection ''bad'' (Rejects (Reason ''boom'')))
                       else if i = ''mute'' then Some (ex_connection ''mute'' (Rejects Nullish))
                       else if i = ''crash'' then Some (ex_connection ''crash'' (Throws ''crashed''))
                       else None),
      MAX_BUTTONS = 32,
      CreateBankControlId = (\<lambda>page bank. ''bank''),
      ParseControlId = (\<lambda>c. None),
      fetchPageAndButton = (\<lambda>a x. (1, x_controlId x)),
      pressIt = (\<lambda>a. True),
      variableControlId = (\<lambda>a. None),
      control_pressed = (\<lambda>c p d s. (s, Returns ())),
      control_rotated = (\<lambda>c p d s. (s, Returns ()))\<rparr>"

text \<open>An environment in which a pressed control runs one action through the scheduler.\<close>

definition ex_buttons :: "int environment" where
  "ex_buttons =
     ex_env\<lparr>control_pressed :=
       (\<lambda>c p d s. if p then runMultipleActions ex_env s [ex_action ''a'' DelayAbsent False] c False d
                  else (s, Returns ()))\<rparr>"

definition ex_control :: control where
  "ex_control =
     \<lparr>has_pressControl = True, has_rotateControl = True, has_setActionsRunning = True,
      has_feedbacks = True, actions_running = False\<rparr>"

definition ex_init :: "int companion" where
  "ex_init =
     \<lparr>timers_running = [], next_timer = 0,
      controls = (\<lambda>c. if c = ''X'' \<or> c = ''Y'' then Some ex_control else None),
      rejections = [], events = []\<rparr>"


definition ex_shared :: "int action_instance list" where
  "ex_shared =
     [ex_action ''a'' (DelayNumber 5) False, ex_action ''z'' (DelayNumber 1) True,
      ex_action ''a'' (DelayNumber 7) False]"

definition ex_proto :: "int action_instance list" where
  "ex_proto = [ex_action ''__proto__'' (DelayNumber 100) False]"

definition ex_batch :: "feedback_item list" where
  "ex_batch =
     [\<lparr>fb_controlId = ''A'', fb_id = ''f1'', fb_value = BoolValue True\<rparr>,
      \<lparr>fb_controlId = ''B'', fb_id = ''f2'', fb_value = BoolValue False\<rparr>,
      \<lparr>fb_controlId = ''A'', fb_id = ''f3'', fb_value = BoolValue False\<rparr>]"

definition ex_proto_batch :: "feedback_item list" where
  "ex_proto_batch = [\<lparr>fb_controlId = ''A'', fb_id = ''__proto__'', fb_value = BoolValue True\<rparr>]"

definition ex_feedback_init :: "int companion" where
  "ex_feedback_init =
     \<lparr>timers_running = [], next_timer = 0,
      controls = (\<lambda>c. if c = ''A'' \<or> c = ''B'' \<or> c = ''C'' then Some ex_control else None),
      rejections = [], events = []\<rparr>"

definition ex_extras_of :: "string \<Rightarrow> run_action_extras" where
  "ex_extras_of c = \<lparr>x_controlId = c, x_deviceid = None, x_page = None, x_bank = None\<rparr>"

definition ex_extras :: run_action_extras where
  "ex_extras = ex_extras_of ''X''"

definition ex_timer :: "nat \<Rightarrow> string \<Rightarrow> string \<Rightarrow> int timer" where
  "ex_timer h i c =
     \<lparr>t_handle = h, t_action = ex_action i (DelayNumber 100) False,
      t_extras = ex_extras_of c, t_delay = 100\<rparr>"

definition ex_running_control :: control where
  "ex_running_control = ex_control\<lparr>actions_running := True\<rparr>"

definition ex_pending :: "int companion" where
  "ex_pending =
     \<lparr>timers_running =
        [(ex_timer 0 ''a'' ''X'', ''X''), (ex_timer 1 ''b'' ''Y'', ''Y''), (ex_timer 2 ''c'' ''X'', ''X'')],
      next_timer = 3,
      controls = (\<lambda>c. if c = ''X'' \<or> c = ''Y'' then Some ex_running_control
                      else if c = ''Z'' then Some ex_control else None),
      rejections = [], events = []\<rparr>"




definition ex_panic :: "int action_instance" where
  "ex_panic =
     \<lparr>act_id = ''p'', act_instance = ''internal'', act_action = ''panic'', act_unlatch = None,
      act_ignoreSelf = False, act_delay = DelayNumber 0, act_disabled = False\<rparr>"

definition ex_stuck :: "int action_instance list" where
  "ex_stuck = [ex_action ''a'' (DelayNumber 100) False, ex_panic]"



section \<open>Properties of the log observations\<close>

lemma dispatched_append [simp]: "dispatched (xs @ ys) = dispatched xs @ dispatched ys"
  by (simp add: dispatched_def)

lemma dispatched_Nil [simp]: "dispatched [] = []"
  by (simp add: dispatched_def)

lemma dispatched_Cons [simp]: "dispatched (e # evs) = (if is_dispatch e then [e] else []) @ dispatched evs"
  by (simp add: dispatched_def)

lemma is_dispatch_dispatch_of [simp]: "is_dispatch (dispatch_of env c x a)"
  by (simp add: dispatch_of_def split: option.splits)

lemma scheduled_append [simp]: "scheduled (xs @ ys) = scheduled xs @ scheduled ys"
  by (induction xs rule: scheduled.induct) simp_all

lemma dispatched_ClearTimeout [simp]: "dispatched (map (\<lambda>(tm, c). ClearTimeout (t_handle tm)) ts) = []"
  by (induction ts) auto

lemma scheduled_ClearTimeout [simp]: "scheduled (map (\<lambda>(tm, c). ClearTimeout (t_handle tm)) ts) = []"
  by (induction ts) auto

lemma dispatched_setControlIsRunning [simp]:
  "dispatched (events (setControlIsRunning s c r u)) = dispatched (events s)"
  by (simp add: setControlIsRunning_def split: option.splits)

lemma scheduled_setControlIsRunning [simp]:
  "scheduled (events (setControlIsRunning s c r u)) = scheduled (events s)"
  by (simp add: setControlIsRunning_def split: option.splits)

lemma dispatched_redraw [simp]:
  "dispatched (events (redraw_controls cs s)) = dispatched (events s)"
  by (induction cs arbitrary: s) simp_all

lemma scheduled_redraw [simp]:
  "scheduled (events (redraw_controls cs s)) = scheduled (events s)"
  by (induction cs arbitrary: s) simp_all

lemma dispatched_abortAll [simp]:
  "dispatched (events (abortAllDelayed s)) = dispatched (events s)"
  by (simp add: abortAllDelayed_def)

lemma scheduled_abortAll [simp]:
  "scheduled (events (abortAllDelayed s)) = scheduled (events s)"
  by (simp add: abortAllDelayed_def)

lemma dispatched_abortControl [simp]:
  "dispatched (events (abortControlDelayed s c u)) = dispatched (events s)"
  by (simp add: abortControlDelayed_def)

lemma scheduled_abortControl [simp]:
  "scheduled (events (abortControlDelayed s c u)) = scheduled (events s)"
  by (simp add: abortControlDelayed_def)

lemma dispatched_abortPage_loop [simp]:
  "dispatched (events (abortPage_loop env p sk bs s)) = dispatched (events s)"
  by (induction bs arbitrary: s) (simp_all add: Let_def)

lemma scheduled_abortPage_loop [simp]:
  "scheduled (events (abortPage_loop env p sk bs s)) = scheduled (events s)"
  by (induction bs arbitrary: s) (simp_all add: Let_def)

lemma forward_events:
  "events (fst (forward reaction call s)) =
     events s @ [call (events (fst (reaction (s\<lparr>events := []\<rparr>))))]"
  by (simp add: forward_def split: prod.splits)

lemma pressControl_events:
  "events (fst (pressControl env s c p d)) =
     events s @
     (if can_press s c
      then [TriggersEmit ''control_press'' c p d,
            PressControl c p d (events (fst (control_pressed env c p d (s\<lparr>events := []\<rparr>))))]
      else [])"
  by (simp add: pressControl_def can_press_def forward_def
      split: option.splits prod.splits completion.splits)

lemma rotateControl_events:
  "events (fst (rotateControl env s c p d)) =
     events s @
     (if can_rotate s c
      then [RotateControl c p d (events (fst (control_rotated env c p d (s\<lparr>events := []\<rparr>))))]
      else [])"
  by (simp add: rotateControl_def can_rotate_def forward_def
      split: option.splits prod.splits completion.splits)

lemma fst_discard [simp]: "fst (discard r) = fst r"
  by (simp add: discard_def split: prod.splits completion.splits)

lemma dispatched_pressControl [simp]:
  "dispatched (events (fst (pressControl env s c p d))) = dispatched (events s)"
  by (simp add: pressControl_events)

lemma scheduled_pressControl [simp]:
  "scheduled (events (fst (pressControl env s c p d))) = scheduled (events s)"
  by (simp add: pressControl_events)

lemma dispatched_rotateControl [simp]:
  "dispatched (events (fst (rotateControl env s c p d))) = dispatched (events s)"
  by (simp add: rotateControl_events)

lemma scheduled_rotateControl [simp]:
  "scheduled (events (fst (rotateControl env s c p d))) = scheduled (events s)"
  by (simp add: rotateControl_events)

lemma dispatched_press_and_release [simp]:
  "dispatched (events (fst (press_and_release env s c d))) = dispatched (events s)"
proof (cases "pressControl env s c True d")
  case (Pair s1 r)
  have "dispatched (events s1) = dispatched (events s)"
    using dispatched_pressControl[of env s c True d] Pair by simp
  then show ?thesis
    using Pair by (cases r) (simp_all add: press_and_release_def)
qed

lemma scheduled_press_and_release [simp]:
  "scheduled (events (fst (press_and_release env s c d))) = scheduled (events s)"
proof (cases "pressControl env s c True d")
  case (Pair s1 r)
  have "scheduled (events s1) = scheduled (events s)"
    using scheduled_pressControl[of env s c True d] Pair by simp
  then show ?thesis
    using Pair by (cases r) (simp_all add: press_and_release_def)
qed

lemma dispatched_executeAction [simp]:
  "dispatched (events (fst (executeAction env s a x))) = dispatched (events s)"
  by (simp add: executeAction_def abortPageDelayed_def split: option.splits)

lemma scheduled_executeAction [simp]:
  "scheduled (events (fst (executeAction env s a x))) = scheduled (events s)"
  by (simp add: executeAction_def abortPageDelayed_def split: option.splits)

lemma scheduled_runAction [simp]:
  "scheduled (events (fst (runAction env s a c x))) = scheduled (events s)"
  by (simp add: runAction_def split: option.splits outcome.splits)


lemma run_loop_Cons:
  "run_loop env c x tab (a # rest) (s, hasd) =
     (if timed env tab a
      then run_loop env c x tab rest (set_timeout s a c x (timer_delay env tab a), True)
      else (case runAction env s a c x of
              (s', Returns u) \<Rightarrow> run_loop env c x tab rest (s', hasd)
            | (s', Raises e) \<Rightarrow> ((s', hasd), Raises e)))"
  by (simp add: timed_def timer_delay_def split: property.splits)

lemma scheduled_run_loop:
  "\<exists>k \<le> length acts.
     scheduled (events (fst (fst (run_loop env c x tab acts (s, hasd))))) =
       scheduled (events s) @ map (\<lambda>a. (a, timer_delay env tab a)) (filter (timed env tab) (take k acts))
     \<and> snd (fst (run_loop env c x tab acts (s, hasd))) = (hasd \<or> (\<exists>a \<in> set (take k acts). timed env tab a))
     \<and> (snd (run_loop env c x tab acts (s, hasd)) = Returns () \<longrightarrow> k = length acts)"
proof (induction acts arbitrary: s hasd)
  case Nil
  then show ?case by simp
next
  case (Cons a rest)
  show ?case
  proof (cases "timed env tab a")
    case True
    let ?s1 = "set_timeout s a c x (timer_delay env tab a)"
    from Cons.IH[of ?s1 True] obtain k where k: "k \<le> length rest"
      "scheduled (events (fst (fst (run_loop env c x tab rest (?s1, True))))) =
         scheduled (events ?s1) @ map (\<lambda>a. (a, timer_delay env tab a)) (filter (timed env tab) (take k rest))"
      "snd (fst (run_loop env c x tab rest (?s1, True))) = (True \<or> (\<exists>a \<in> set (take k rest). timed env tab a))"
      "snd (run_loop env c x tab rest (?s1, True)) = Returns () \<longrightarrow> k = length rest"
      by blast
    show ?thesis
      by (rule exI[of _ "Suc k"]) (use True k in \<open>simp add: run_loop_Cons set_timeout_def del: run_loop.simps\<close>)
  next
    case False
    obtain s' r where ra: "runAction env s a c x = (s', r)" by (cases "runAction env s a c x")
    have sc: "scheduled (events s') = scheduled (events s)"
      using scheduled_runAction[of env s a c x] ra by simp
    show ?thesis
    proof (cases r)
      case (Returns u)
      from Cons.IH[of s' hasd] obtain k where k: "k \<le> length rest"
        "scheduled (events (fst (fst (run_loop env c x tab rest (s', hasd))))) =
           scheduled (events s') @ map (\<lambda>a. (a, timer_delay env tab a)) (filter (timed env tab) (take k rest))"
        "snd (fst (run_loop env c x tab rest (s', hasd))) = (hasd \<or> (\<exists>a \<in> set (take k rest). timed env tab a))"
        "snd (run_loop env c x tab rest (s', hasd)) = Returns () \<longrightarrow> k = length rest"
        by blast
      show ?thesis
        by (rule exI[of _ "Suc k"])
          (use False k ra Returns sc in \<open>simp add: run_loop_Cons del: run_loop.simps\<close>)
    next
      case (Raises e)
      show ?thesis
        by (rule exI[of _ "Suc 0"])
          (use False ra Raises sc in \<open>simp add: run_loop_Cons del: run_loop.simps\<close>)
    qed
  qed
qed

lemma scheduled_run_loop_returns:
  assumes "snd (run_loop env c x tab acts (s, hasd)) = Returns ()"
  shows "scheduled (events (fst (fst (run_loop env c x tab acts (s, hasd))))) =
       scheduled (events s) @ map (\<lambda>a. (a, timer_delay env tab a)) (filter (timed env tab) acts)"
    and "snd (fst (run_loop env c x tab acts (s, hasd))) = (hasd \<or> (\<exists>a \<in> set acts. timed env tab a))"
  using scheduled_run_loop[of acts env c x tab s hasd] assms by auto

lemma run_cases:
  "runMultipleActions env s actions0 c rel dev =
     (if enabled_actions actions0 = [] then (s, Returns ())
      else
        (let r = run_loop env c (make_extras env c dev)
                   (effective_delays env rel (enabled_actions actions0))
                   (enabled_actions actions0) (s, False)
         in case snd r of
              Returns u \<Rightarrow>
                (if snd (fst r) then setControlIsRunning (fst (fst r)) c True None else fst (fst r),
                 Returns ())
            | Raises e \<Rightarrow> (fst (fst r), Raises e)))"
  by (simp add: runMultipleActions_def Let_def split: prod.splits completion.splits)


section \<open>The table of effective delays\<close>


lemma loop_lookup_notin:
  "k \<notin> act_id ` set acts \<Longrightarrow> fst (effective_delays_loop env rel acts (tab, tmp)) k = tab k"
  by (induction acts arbitrary: tab tmp) (simp_all add: Let_def set_property_def)

lemma loop_lookup_last:
  "j < length acts \<Longrightarrow> \<forall>k. j < k \<and> k < length acts \<longrightarrow> act_id (acts ! k) \<noteq> act_id (acts ! j) \<Longrightarrow>
   act_id (acts ! j) \<noteq> ''__proto__'' \<Longrightarrow>
   fst (effective_delays_loop env rel acts (tab, tmp)) (act_id (acts ! j)) =
     Some (if rel then foldl (num_add env) tmp (map (coerce_delay env) (take (Suc j) acts))
           else coerce_delay env (acts ! j))"
proof (induction acts arbitrary: j tab tmp)
  case Nil
  then show ?case by simp
next
  case (Cons a rest)
  show ?case
  proof (cases j)
    case 0
    have "act_id a \<notin> act_id ` set rest"
    proof
      assume "act_id a \<in> act_id ` set rest"
      then obtain i where "i < length rest" "act_id (rest ! i) = act_id a"
        by (auto simp: in_set_conv_nth)
      with Cons.prems(2)[rule_format, of "Suc i"] 0 show False by simp
    qed
    then show ?thesis using 0 Cons.prems(3) by (simp add: Let_def loop_lookup_notin set_property_def)
  next
    case (Suc j')
    have a: "j' < length rest" using Cons.prems(1) Suc by simp
    have b: "\<forall>k. j' < k \<and> k < length rest \<longrightarrow> act_id (rest ! k) \<noteq> act_id (rest ! j')"
    proof (intro allI impI)
      fix k assume "j' < k \<and> k < length rest"
      with Cons.prems(2)[rule_format, of "Suc k"] Suc show "act_id (rest ! k) \<noteq> act_id (rest ! j')" by simp
    qed
    have c: "act_id (rest ! j') \<noteq> ''__proto__''" using Cons.prems(3) Suc by simp
    show ?thesis using Cons.IH[OF a b c] Suc by (simp add: Let_def)
  qed
qed

lemma loop_proto:
  "tab ''__proto__'' = None \<Longrightarrow> fst (effective_delays_loop env rel acts (tab, tmp)) ''__proto__'' = None"
  by (induction acts arbitrary: tab tmp) (simp_all add: Let_def set_property_def)

lemma loop_snd:
  "acts \<noteq> [] \<Longrightarrow> snd (effective_delays_loop env rel acts (tab, tmp)) =
     (if rel then foldl (num_add env) tmp (map (coerce_delay env) acts) else coerce_delay env (last acts))"
  by (induction acts arbitrary: tab tmp) (auto simp: Let_def)

lemma computed_delay_eq:
  assumes "i < length acts"
  shows "computed_delay env rel acts i =
     (if rel then foldl (num_add env) (num_zero env) (map (coerce_delay env) (take (Suc i) acts))
      else coerce_delay env (acts ! i))"
proof -
  have ne: "take (Suc i) acts \<noteq> []" using assms by (cases acts) auto
  have "last (take (Suc i) acts) = acts ! i"
    using assms by (simp add: take_Suc_conv_app_nth)
  then show ?thesis
    unfolding computed_delay_def using loop_snd[OF ne, of env rel Map.empty "num_zero env"] by simp
qed



lemma delay_time_last:
  assumes "j < length acts"
    and "\<forall>k. j < k \<and> k < length acts \<longrightarrow> act_id (acts ! k) \<noteq> act_id (acts ! j)"
    and "act_id a = act_id (acts ! j)"
    and "act_id a \<noteq> ''__proto__''"
  shows "delay_time env (effective_delays env rel acts) a = Own (computed_delay env rel acts j)"
  using loop_lookup_last[OF assms(1,2), of env rel Map.empty "num_zero env"] assms(1,3,4)
  by (simp add: delay_time_def get_property_def effective_delays_def computed_delay_eq)







section \<open>Effective delays\<close>


lemma ex_shared_enabled:
  "enabled_actions ex_shared =
     [ex_action ''a'' (DelayNumber 5) False, ex_action ''a'' (DelayNumber 7) False]"
  by (simp add: ex_shared_def enabled_actions_def ex_action_def)

lemma ex_env_fields:
  "num_zero ex_env = 0"
  "num_add ex_env = (\<lambda>a b. a + b)"
  "num_positive ex_env = (\<lambda>d. 0 < d)"
  "ParseControlId ex_env = (\<lambda>c. None)"
  "getChild ex_env ''conn'' = Some (ex_connection ''conn'' Fulfils)"
  "getChild ex_env ''bad'' = Some (ex_connection ''bad'' (Rejects (Reason ''boom'')))"
  "getChild ex_env ''mute'' = Some (ex_connection ''mute'' (Rejects Nullish))"
  "getChild ex_env ''crash'' = Some (ex_connection ''crash'' (Throws ''crashed''))"
  "getChild ex_env ''gone'' = None"
  by (simp_all add: ex_env_def)

lemma ex_action_fields:
  "act_id (ex_action i d dis) = i"
  "act_instance (ex_action i d dis) = ''conn''"
  "act_delay (ex_action i d dis) = d"
  "act_disabled (ex_action i d dis) = dis"
  "act_action (ex_action i d dis) = ''go''"
  by (simp_all add: ex_action_def)

lemma ex_make_extras: "make_extras ex_env c None = ex_extras_of c"
  by (simp add: make_extras_def ex_env_fields ex_extras_of_def)





text \<open>
  Claim C10 describes a table keyed by action id in which every action finds the delay
  computed for its id. The code keeps the table in a plain object, and for the id
  \<^verbatim>\<open>__proto__\<close> it does something else: the assignment to that key is swallowed, and the
  read yields \<^verbatim>\<open>Object.prototype\<close>, which is not greater than 0. An enabled action with
  that id and a delay of 100, whose computed effective delay is 100, is therefore run at
  once: no timer is armed and the running flag is not set.
\<close>

theorem proto_id_runs_at_once:
  "enabled_actions ex_proto = [ex_action ''__proto__'' (DelayNumber 100) False] \<and>
   distinct (map act_id (enabled_actions ex_proto)) \<and>
   computed_delay ex_env False (enabled_actions ex_proto) 0 = 100 \<and>
   effective_delays ex_env False (enabled_actions ex_proto) ''__proto__'' = None \<and>
   delay_time ex_env (effective_delays ex_env False (enabled_actions ex_proto))
     (ex_action ''__proto__'' (DelayNumber 100) False) = Inherited \<and>
   runMultipleActions ex_env ex_init ex_proto ''X'' False None =
     (ex_init\<lparr>events :=
        [ActionRun ''conn'' (ex_action ''__proto__'' (DelayNumber 100) False) ''X'' ex_extras]\<rparr>,
      Returns ()) \<and>
   scheduled (events (fst (runMultipleActions ex_env ex_init ex_proto ''X'' False None))) = []"
proof -
  have e: "enabled_actions ex_proto = [ex_action ''__proto__'' (DelayNumber 100) False]"
    by (simp add: ex_proto_def enabled_actions_def ex_action_fields)
  have r: "runMultipleActions ex_env ex_init ex_proto ''X'' False None =
     (ex_init\<lparr>events :=
        [ActionRun ''conn'' (ex_action ''__proto__'' (DelayNumber 100) False) ''X'' ex_extras]\<rparr>,
      Returns ())"
    unfolding runMultipleActions_def e ex_make_extras
    by (simp add: effective_delays_def delay_time_def get_property_def set_property_def
        coerce_delay_def ex_action_fields ex_env_fields runAction_def ex_connection_def
        ex_init_def ex_extras_def Let_def)
  show ?thesis
    unfolding r unfolding e
    by (simp add: computed_delay_def effective_delays_def delay_time_def get_property_def
        set_property_def coerce_delay_def ex_action_fields ex_env_fields Let_def)
qed

text \<open>
  For every other id the table is keyed as the claim says: the delay an enabled action
  is dispatched or scheduled with is the one computed for the last position that carries
  its id. With distinct ids that position is its own; when two enabled actions share an
  id, both use the delay computed for the later one.
\<close>

lemma delay_table_keyed_by_id:
  assumes "acts = filter (\<lambda>a. \<not> act_disabled a) actions0"
    and "i < length acts" and "j < length acts"
    and "act_id (acts ! i) = act_id (acts ! j)"
    and "\<forall>k. j < k \<and> k < length acts \<longrightarrow> act_id (acts ! k) \<noteq> act_id (acts ! j)"
    and "act_id (acts ! i) \<noteq> ''__proto__''"
  shows "delay_time env (effective_delays env relative_delay acts) (acts ! i)
           = Own (computed_delay env relative_delay acts j)"
    and "timed env (effective_delays env relative_delay acts) (acts ! i)
           = num_positive env (computed_delay env relative_delay acts j)"
    and "distinct (map act_id acts) \<Longrightarrow> i = j"
proof -
  show d: "delay_time env (effective_delays env relative_delay acts) (acts ! i)
           = Own (computed_delay env relative_delay acts j)"
    by (rule delay_time_last[OF assms(3,5,4,6)])
  show "timed env (effective_delays env relative_delay acts) (acts ! i)
           = num_positive env (computed_delay env relative_delay acts j)"
    by (simp add: timed_def d)
  show "distinct (map act_id acts) \<Longrightarrow> i = j"
    using assms(2,3,4) by (auto simp: distinct_conv_nth)
qed

lemma shared_id_uses_later_delay:
  "computed_delay ex_env True (enabled_actions ex_shared) 0 = 5 \<and>
   computed_delay ex_env True (enabled_actions ex_shared) 1 = 12 \<and>
   delay_time ex_env (effective_delays ex_env True (enabled_actions ex_shared))
     (enabled_actions ex_shared ! 0) = Own 12 \<and>
   delay_time ex_env (effective_delays ex_env True (enabled_actions ex_shared))
     (enabled_actions ex_shared ! 1) = Own 12"
  unfolding ex_shared_enabled
  by (simp add: computed_delay_def effective_delays_def delay_time_def get_property_def
      set_property_def coerce_delay_def ex_action_fields ex_env_fields Let_def)

section \<open>Immediate actions\<close>





section \<open>Press and rotate\<close>

lemma trigger_events_append [simp]: "trigger_events (xs @ ys) = trigger_events xs @ trigger_events ys"
  by (induction xs rule: trigger_events.induct) simp_all

lemma delivered_append [simp]: "delivered c (xs @ ys) = delivered c xs @ delivered c ys"
  by (induction c xs rule: delivered.induct) simp_all

text \<open>
  Claim C7 as stated fails: a press on an id that resolves to no control returns false
  and leaves the state, log included, as it was, so no trigger event fires; and a
  rotation of a rotatable control forwards the rotation and emits no trigger event.
\<close>

theorem press_unknown_emits_nothing:
  "getControl ex_init ''unknown'' = None \<and>
   pressControl ex_env ex_init ''unknown'' True None = (ex_init, Returns False) \<and>
   trigger_events (events (fst (pressControl ex_env ex_init ''unknown'' True None))) = [] \<and>
   rotateControl ex_env ex_init ''X'' True None =
     (ex_init\<lparr>events := [RotateControl ''X'' True None []]\<rparr>, Returns True) \<and>
   trigger_events (events (fst (rotateControl ex_env ex_init ''X'' True None))) = []"
  by (simp add: pressControl_def rotateControl_def forward_def getControl_def ex_init_def
      ex_control_def ex_env_def)

text \<open>
  Claim C7, amended. \<^verbatim>\<open>pressControl\<close> emits the \<^verbatim>\<open>control_press\<close> trigger event only
  when the id resolves to a control that can be pressed, and then before it forwards the
  press to the control, whose reaction runs inside the call; it returns true when the
  reaction returns. Otherwise it returns false and changes nothing, emitting no event.
  \<^verbatim>\<open>rotateControl\<close> forwards the rotation to a control that can be rotated and returns
  true when the reaction returns; otherwise it returns false and changes nothing. It
  never emits a trigger event.
\<close>

theorem press_emits_when_resolved:
  "(can_press s controlId \<longrightarrow>
      pressControl env s controlId pressed deviceId =
        ((fst (control_pressed env controlId pressed deviceId (s\<lparr>events := []\<rparr>)))
           \<lparr>events := events s @
              [TriggersEmit ''control_press'' controlId pressed deviceId,
               PressControl controlId pressed deviceId
                 (events (fst (control_pressed env controlId pressed deviceId (s\<lparr>events := []\<rparr>))))]\<rparr>,
         case snd (control_pressed env controlId pressed deviceId (s\<lparr>events := []\<rparr>)) of
           Returns u \<Rightarrow> Returns True
         | Raises e \<Rightarrow> Raises e))
   \<and> (\<not> can_press s controlId \<longrightarrow>
        pressControl env s controlId pressed deviceId = (s, Returns False))
   \<and> (can_rotate s controlId \<longrightarrow>
        rotateControl env s controlId direction deviceId =
          ((fst (control_rotated env controlId direction deviceId (s\<lparr>events := []\<rparr>)))
             \<lparr>events := events s @
                [RotateControl controlId direction deviceId
                   (events (fst (control_rotated env controlId direction deviceId (s\<lparr>events := []\<rparr>))))]\<rparr>,
           case snd (control_rotated env controlId direction deviceId (s\<lparr>events := []\<rparr>)) of
             Returns u \<Rightarrow> Returns True
           | Raises e \<Rightarrow> Raises e))
   \<and> (\<not> can_rotate s controlId \<longrightarrow>
        rotateControl env s controlId direction deviceId = (s, Returns False))
   \<and> trigger_events (events (fst (rotateControl env s controlId direction deviceId)))
       = trigger_events (events s)"
  by (simp add: pressControl_def rotateControl_def forward_def can_press_def can_rotate_def
      split: option.splits prod.splits completion.splits)

lemma ex_init_capabilities:
  "can_press ex_init ''X''" "can_rotate ex_init ''X''" "can_show_running ex_init ''X''"
  "\<not> can_press ex_init ''unknown''" "\<not> can_rotate ex_init ''unknown''"
  by (simp_all add: can_press_def can_rotate_def can_show_running_def getControl_def ex_init_def
      ex_control_def)

lemma ex_buttons_pressed:
  "control_pressed ex_buttons ''X'' True None (ex_init\<lparr>events := []\<rparr>) =
     (ex_init\<lparr>events := [ActionRun ''conn'' (ex_action ''a'' DelayAbsent False) ''X'' (ex_extras_of ''X'')]\<rparr>,
      Returns ())"
  unfolding ex_buttons_def
  by (simp add: runMultipleActions_def enabled_actions_def ex_make_extras
      effective_delays_def delay_time_def get_property_def set_property_def
      coerce_delay_def ex_action_fields ex_env_fields runAction_def ex_connection_def
      ex_init_def Let_def)

lemma ex_buttons_rotated:
  "control_rotated ex_buttons ''X'' True None (ex_init\<lparr>events := []\<rparr>) = (ex_init\<lparr>events := []\<rparr>, Returns ())"
  by (simp add: ex_buttons_def ex_env_def)

theorem press_emits_when_resolved_witness:
  "can_press ex_init ''X'' \<and> can_rotate ex_init ''X'' \<and>
   \<not> can_press ex_init ''unknown'' \<and> \<not> can_rotate ex_init ''unknown'' \<and>
   pressControl ex_buttons ex_init ''X'' True None =
     (ex_init\<lparr>events :=
        [TriggersEmit ''control_press'' ''X'' True None,
         PressControl ''X'' True None
           [ActionRun ''conn'' (ex_action ''a'' DelayAbsent False) ''X'' (ex_extras_of ''X'')]]\<rparr>,
      Returns True) \<and>
   rotateControl ex_buttons ex_init ''X'' True None =
     (ex_init\<lparr>events := [RotateControl ''X'' True None []]\<rparr>, Returns True) \<and>
   pressControl ex_buttons ex_init ''unknown'' True None = (ex_init, Returns False) \<and>
   rotateControl ex_buttons ex_init ''unknown'' True None = (ex_init, Returns False)"
  using press_emits_when_resolved[of ex_init "''X''" ex_buttons True None True]
    press_emits_when_resolved[of ex_init "''unknown''" ex_buttons True None True]
  by (simp add: ex_init_capabilities ex_buttons_pressed ex_buttons_rotated) (simp add: ex_init_def)

section \<open>Aborting delayed actions\<close>

lemma cleared_append [simp]: "cleared (xs @ ys) = cleared xs @ cleared ys"
  by (induction xs rule: cleared.induct) simp_all

lemma cleared_ClearTimeout [simp]:
  "cleared (map (\<lambda>(tm, c). ClearTimeout (t_handle tm)) ts) = map (\<lambda>(tm, c). t_handle tm) ts"
  by (induction ts) auto

lemma running_calls_append [simp]:
  "running_calls c r (xs @ ys) = running_calls c r xs + running_calls c r ys"
  by (simp add: running_calls_def)

lemma running_calls_Nil [simp]: "running_calls c r [] = 0"
  by (simp add: running_calls_def)

lemma running_calls_ClearTimeout [simp]:
  "running_calls c r (map (\<lambda>(tm, k). ClearTimeout (t_handle tm)) ts) = 0"
  by (auto simp: running_calls_def filter_empty_conv)

lemma running_calls_single [simp]:
  "running_calls c r [SetActionsRunning k r' u] = (if k = c \<and> r' = r then 1 else 0)"
  by (simp add: running_calls_def)

lemma setControlIsRunning_simps:
  "timers_running (setControlIsRunning s c r u) = timers_running s"
  "next_timer (setControlIsRunning s c r u) = next_timer s"
  "rejections (setControlIsRunning s c r u) = rejections s"
  "events (setControlIsRunning s c r u) =
     events s @ (if can_show_running s c then [SetActionsRunning c r u] else [])"
  "can_show_running (setControlIsRunning s c r u) k = can_show_running s k"
  "is_running (setControlIsRunning s c r u) k =
     (if k = c \<and> can_show_running s c then r else is_running s k)"
  "k \<noteq> c \<Longrightarrow> controls (setControlIsRunning s c r u) k = controls s k"
  "owns_timer (setControlIsRunning s c r u) k = owns_timer s k"
  by (auto simp: setControlIsRunning_def can_show_running_def is_running_def getControl_def
      setActionsRunning_def owns_timer_def split: option.splits)

lemma observers_events_update [simp]:
  "can_show_running (s\<lparr>events := e\<rparr>) k = can_show_running s k"
  "can_show_running (s\<lparr>timers_running := t\<rparr>) k = can_show_running s k"
  "can_show_running (s\<lparr>rejections := q\<rparr>) k = can_show_running s k"
  "is_running (s\<lparr>events := e\<rparr>) k = is_running s k"
  "is_running (s\<lparr>timers_running := t\<rparr>) k = is_running s k"
  "is_running (s\<lparr>rejections := q\<rparr>) k = is_running s k"
  "owns_timer (s\<lparr>events := e\<rparr>) k = owns_timer s k"
  "owns_timer (s\<lparr>rejections := q\<rparr>) k = owns_timer s k"
  by (simp_all add: can_show_running_def is_running_def getControl_def owns_timer_def)

lemma affected_controls_set:
  "set (affected_controls ts acc) = set acc \<union> snd ` set ts"
  by (induction ts acc rule: affected_controls.induct) (auto simp: set_add_def)

lemma affected_controls_distinct:
  "distinct acc \<Longrightarrow> distinct (affected_controls ts acc)"
  by (induction ts acc rule: affected_controls.induct) (auto simp: set_add_def)

lemma redraw_controls_simps:
  "timers_running (redraw_controls cs s) = timers_running s"
  "next_timer (redraw_controls cs s) = next_timer s"
  "rejections (redraw_controls cs s) = rejections s"
  "can_show_running (redraw_controls cs s) k = can_show_running s k"
  "cleared (events (redraw_controls cs s)) = cleared (events s)"
  "running_calls k True (events (redraw_controls cs s)) = running_calls k True (events s)"
  by (induction cs arbitrary: s) (simp_all add: setControlIsRunning_simps)

lemma redraw_controls_calls:
  "distinct cs \<Longrightarrow>
   running_calls k False (events (redraw_controls cs s)) =
     running_calls k False (events s) + (if k \<in> set cs \<and> can_show_running s k then 1 else 0)"
  by (induction cs arbitrary: s) (auto simp: setControlIsRunning_simps)

lemma redraw_controls_running:
  "is_running (redraw_controls cs s) k =
     (is_running s k \<and> \<not> (k \<in> set cs \<and> can_show_running s k))"
  by (induction cs arbitrary: s) (auto simp: setControlIsRunning_simps)

lemma redraw_controls_other:
  "k \<notin> set cs \<Longrightarrow> controls (redraw_controls cs s) k = controls s k"
  by (induction cs arbitrary: s) (auto simp: setControlIsRunning_simps)

text \<open>
  Claim C6. \<^verbatim>\<open>abortAllDelayed\<close> cancels every pending timer and leaves the pending set
  empty. For each control that owned at least one of them (and has the running indicator)
  it calls \<^verbatim>\<open>setActionsRunning(false)\<close> exactly once, however many timers the control
  owned, and the control is not running afterwards; no other control receives a call.
\<close>

theorem abort_all_once_per_control:
  "timers_running (abortAllDelayed s) = []
   \<and> cleared (events (abortAllDelayed s)) =
       cleared (events s) @ map (\<lambda>(tm, k). t_handle tm) (timers_running s)
   \<and> running_calls c False (events (abortAllDelayed s)) =
       running_calls c False (events s) + (if owns_timer s c \<and> can_show_running s c then 1 else 0)
   \<and> running_calls c True (events (abortAllDelayed s)) = running_calls c True (events s)
   \<and> is_running (abortAllDelayed s) c =
       (is_running s c \<and> \<not> (owns_timer s c \<and> can_show_running s c))"
  by (simp add: abortAllDelayed_def redraw_controls_simps redraw_controls_calls
      redraw_controls_running affected_controls_distinct affected_controls_set owns_timer_def)

lemma ex_pending_abort_all:
  "events (abortAllDelayed ex_pending) =
     [ClearTimeout 0, ClearTimeout 1, ClearTimeout 2,
      SetActionsRunning ''X'' False None, SetActionsRunning ''Y'' False None]"
  by (simp add: abortAllDelayed_def ex_pending_def set_add_def setControlIsRunning_def
      getControl_def ex_running_control_def ex_control_def ex_timer_def)

theorem abort_all_once_per_control_witness:
  "owns_timer ex_pending ''X'' \<and> can_show_running ex_pending ''X'' \<and>
   length (filter (\<lambda>(tm, k). k = ''X'') (timers_running ex_pending)) = 2 \<and>
   running_calls ''X'' False (events (abortAllDelayed ex_pending)) = 1 \<and>
   running_calls ''Y'' False (events (abortAllDelayed ex_pending)) = 1 \<and>
   running_calls ''Z'' False (events (abortAllDelayed ex_pending)) = 0 \<and>
   timers_running (abortAllDelayed ex_pending) = []"
proof -
  have o: "owns_timer ex_pending ''X''" "can_show_running ex_pending ''X''"
    by (simp_all add: ex_pending_def owns_timer_def can_show_running_def getControl_def
        ex_running_control_def ex_control_def)
  have n: "length (filter (\<lambda>(tm, k). k = ''X'') (timers_running ex_pending)) = 2"
    by (simp add: ex_pending_def)
  have e: "events ex_pending = []" by (simp add: ex_pending_def)
  from abort_all_once_per_control[of ex_pending "''X''"] o e
  have x: "running_calls ''X'' False (events (abortAllDelayed ex_pending)) = 1"
    and t: "timers_running (abortAllDelayed ex_pending) = []"
    by simp_all
  have y: "running_calls ''Y'' False (events (abortAllDelayed ex_pending)) = 1"
    and z: "running_calls ''Z'' False (events (abortAllDelayed ex_pending)) = 0"
    unfolding ex_pending_abort_all by (simp_all add: running_calls_def)
  show ?thesis using o n x y z t by simp
qed

text \<open>
  Claim C5 as stated fails in its last part: on a control that owns no pending timer the
  call is not without effect, since it still invokes \<^verbatim>\<open>setActionsRunning(false, skipUp)\<close>
  on that control.
\<close>

theorem abort_control_without_timers_calls_control:
  "\<not> owns_timer ex_init ''X'' \<and> events ex_init = [] \<and>
   events (abortControlDelayed ex_init ''X'' (Some False)) = [SetActionsRunning ''X'' False (Some False)] \<and>
   abortControlDelayed ex_init ''X'' (Some False) \<noteq> ex_init"
proof -
  have e: "events (abortControlDelayed ex_init ''X'' (Some False)) = [SetActionsRunning ''X'' False (Some False)]"
    by (simp add: abortControlDelayed_def setControlIsRunning_def getControl_def ex_init_def ex_control_def)
  have "events ex_init = []" by (simp add: ex_init_def)
  with e have "abortControlDelayed ex_init ''X'' (Some False) \<noteq> ex_init" by auto
  with e show ?thesis by (simp add: owns_timer_def ex_init_def)
qed

text \<open>
  Claim C5, amended. \<^verbatim>\<open>abortControlDelayed(controlId, skipUp)\<close> cancels exactly the pending
  timers owned by \<^verbatim>\<open>controlId\<close>; every other control keeps its pending timers and its
  state. The control \<^verbatim>\<open>controlId\<close> itself, when it is registered with the running
  indicator, receives one call \<^verbatim>\<open>setActionsRunning(false, skipUp)\<close>, also when it owns no
  pending timer: then no timer is cancelled and that call is the only effect.
\<close>

theorem abort_control_frame:
  "timers_running (abortControlDelayed s controlId skipUp) =
     filter (\<lambda>(tm, k). k \<noteq> controlId) (timers_running s)
   \<and> events (abortControlDelayed s controlId skipUp) =
       events s @
       map (\<lambda>(tm, k). ClearTimeout (t_handle tm)) (filter (\<lambda>(tm, k). k = controlId) (timers_running s)) @
       (if can_show_running s controlId then [SetActionsRunning controlId False skipUp] else [])
   \<and> (\<forall>k. k \<noteq> controlId \<longrightarrow>
         controls (abortControlDelayed s controlId skipUp) k = controls s k
         \<and> owns_timer (abortControlDelayed s controlId skipUp) k = owns_timer s k)
   \<and> next_timer (abortControlDelayed s controlId skipUp) = next_timer s
   \<and> \<not> owns_timer (abortControlDelayed s controlId skipUp) controlId
   \<and> (\<not> owns_timer s controlId \<longrightarrow>
         timers_running (abortControlDelayed s controlId skipUp) = timers_running s
         \<and> events (abortControlDelayed s controlId skipUp) =
             events s @
             (if can_show_running s controlId then [SetActionsRunning controlId False skipUp] else []))"
proof -
  have f: "\<not> owns_timer s controlId \<Longrightarrow> filter (\<lambda>(tm, k). k \<noteq> controlId) (timers_running s) = timers_running s"
    by (force simp: owns_timer_def filter_id_conv)
  have g: "\<not> owns_timer s controlId \<Longrightarrow> filter (\<lambda>(tm, k). k = controlId) (timers_running s) = []"
    by (force simp: owns_timer_def filter_empty_conv)
  show ?thesis
    using f g
    by (auto simp: abortControlDelayed_def setControlIsRunning_simps owns_timer_def)
qed

theorem abort_control_frame_witness:
  "\<not> owns_timer ex_init ''X'' \<and> ''Y'' \<noteq> ''X'' \<and>
   timers_running (abortControlDelayed ex_pending ''X'' (Some False)) = [(ex_timer 1 ''b'' ''Y'', ''Y'')] \<and>
   controls (abortControlDelayed ex_pending ''X'' (Some False)) ''Y'' = controls ex_pending ''Y'' \<and>
   owns_timer (abortControlDelayed ex_pending ''X'' (Some False)) ''Y'' \<and>
   timers_running (abortControlDelayed ex_init ''X'' None) = [] \<and>
   events (abortControlDelayed ex_init ''X'' None) = [SetActionsRunning ''X'' False None]"
  using abort_control_frame[of ex_pending "''X''" "Some False"] abort_control_frame[of ex_init "''X''" None]
  by (simp add: ex_pending_def ex_init_def owns_timer_def can_show_running_def getControl_def
      ex_control_def ex_timer_def)

section \<open>Dispatch of a single action\<close>






section \<open>The running flag and the pending timers\<close>

lemma ex_init_clean:
  "timers_running ex_init = [] \<and> \<not> is_running ex_init ''X'' \<and> can_show_running ex_init ''X''"
  by (simp add: ex_init_def is_running_def can_show_running_def getControl_def ex_control_def)

text \<open>
  Claim C4 says that in every reachable state a control is running exactly when it
  owns a pending timer. One call of \<^verbatim>\<open>runMultipleActions\<close> from a state with no pending
  timer and no running control breaks this: the run arms a timer for its first action
  and then executes the internal action \<^verbatim>\<open>panic\<close> synchronously, which cancels that timer
  and sets the flag to false; after the loop the stale \<^verbatim>\<open>has_delayed\<close> sets the flag to
  true. The control is then running and owns no pending timer.
\<close>

theorem running_stuck_after_abort_in_run:
  "snd (runMultipleActions ex_env ex_init ex_stuck ''X'' False None) = Returns () \<and>
   timers_running (fst (runMultipleActions ex_env ex_init ex_stuck ''X'' False None)) = [] \<and>
   \<not> owns_timer (fst (runMultipleActions ex_env ex_init ex_stuck ''X'' False None)) ''X'' \<and>
   is_running (fst (runMultipleActions ex_env ex_init ex_stuck ''X'' False None)) ''X'' \<and>
   events (fst (runMultipleActions ex_env ex_init ex_stuck ''X'' False None)) =
     [SetTimeout 0 (ex_action ''a'' (DelayNumber 100) False) ''X'' 100,
      ExecuteAction ex_panic ex_extras,
      ClearTimeout 0,
      SetActionsRunning ''X'' False None,
      SetActionsRunning ''X'' True None]"
  unfolding runMultipleActions_def enabled_actions_def ex_make_extras
  by (simp add: ex_stuck_def ex_action_def ex_panic_def
      effective_delays_def delay_time_def get_property_def set_property_def prototype_names_def
      coerce_delay_def runAction_def executeAction_def
      abortAllDelayed_def set_add_def set_timeout_def setControlIsRunning_def setActionsRunning_def
      getControl_def ex_env_fields ex_init_def ex_control_def ex_extras_def ex_extras_of_def
      owns_timer_def is_running_def Let_def)

section \<open>The running indicator\<close>

lemma can_show_abortAll [simp]: "can_show_running (abortAllDelayed s) k = can_show_running s k"
  by (simp add: abortAllDelayed_def redraw_controls_simps)

lemma can_show_abortControl [simp]:
  "can_show_running (abortControlDelayed s c u) k = can_show_running s k"
  by (simp add: abortControlDelayed_def setControlIsRunning_simps)

lemma can_show_abortPage_loop [simp]:
  "can_show_running (abortPage_loop env p sk bs s) k = can_show_running s k"
  by (induction bs arbitrary: s) (simp_all add: Let_def)

lemma can_show_set_timeout [simp]:
  "can_show_running (set_timeout s a c x d) k = can_show_running s k"
  by (simp add: set_timeout_def can_show_running_def getControl_def)

lemma owns_abortControl [simp]:
  "owns_timer (abortControlDelayed s k u) c = (owns_timer s c \<and> c \<noteq> k)"
  by (auto simp: abortControlDelayed_def setControlIsRunning_simps owns_timer_def)

lemma owns_abortAll [simp]: "owns_timer (abortAllDelayed s) c = False"
  by (simp add: abortAllDelayed_def owns_timer_def redraw_controls_simps)


lemma calls_abortControl:
  "running_calls c r (events (abortControlDelayed s k u)) =
     running_calls c r (events s) + (if k = c \<and> \<not> r \<and> can_show_running s c then 1 else 0)"
  by (simp add: abortControlDelayed_def setControlIsRunning_simps)

lemma calls_abortAll_True [simp]:
  "running_calls c True (events (abortAllDelayed s)) = running_calls c True (events s)"
  by (simp add: abortAllDelayed_def redraw_controls_simps)

lemma calls_abortPage_loop_True [simp]:
  "running_calls c True (events (abortPage_loop env p sk bs s)) = running_calls c True (events s)"
  by (induction bs arbitrary: s) (simp_all add: Let_def calls_abortControl)


lemma running_calls_Cons [simp]:
  "running_calls c r (e # evs) =
     (case e of SetActionsRunning k r' u \<Rightarrow> if k = c \<and> r' = r then 1 else 0 | _ \<Rightarrow> 0)
       + running_calls c r evs"
  by (simp add: running_calls_def split: event.splits)



lemma runAction_calm:
  assumes "calm env c x a"
  shows "runAction env s a c x =
     (s\<lparr>rejections := rejections s @ rejected env c x a,
        events := events s @ [dispatch_of env c x a]\<rparr>, Returns ())"
proof (cases "act_instance a = ''internal''")
  case True
  then show ?thesis
    using assms
    by (simp add: runAction_def calm_def aborts_def presses_def executeAction_def rejected_def
        dispatch_of_def)
next
  case False
  then show ?thesis
    using assms
    by (simp add: runAction_def calm_def throws_def rejected_def dispatch_of_def
        split: option.splits outcome.splits)
qed





lemma find_owner: "(find (\<lambda>v. v = c) (map snd ts) = None) = (c \<notin> snd ` set ts)"
  by (induction ts) auto




lemma is_running_cong: "controls s' = controls s \<Longrightarrow> is_running s' c = is_running s c"
  by (simp add: is_running_def getControl_def)

lemma can_show_cong: "controls s' = controls s \<Longrightarrow> can_show_running s' c = can_show_running s c"
  by (simp add: can_show_running_def getControl_def)

lemma timer_callback_calm:
  assumes "calm env k (t_extras tm) (t_action tm)"
  shows "snd (timer_callback env s tm k) = Returns ()"
    and "timers_running (fst (timer_callback env s tm k)) = delete_timer (t_handle tm) (timers_running s)"
    and "events (fst (timer_callback env s tm k)) =
          events s @ [dispatch_of env k (t_extras tm) (t_action tm)] @
          (if k \<notin> snd ` set (delete_timer (t_handle tm) (timers_running s)) \<and> can_show_running s k
           then [SetActionsRunning k False None] else [])"
    and "is_running (fst (timer_callback env s tm k)) c =
          (is_running s c \<and>
           \<not> (k = c \<and> c \<notin> snd ` set (delete_timer (t_handle tm) (timers_running s)) \<and> can_show_running s c))"
    and "can_show_running (fst (timer_callback env s tm k)) c = can_show_running s c"
    and "next_timer (fst (timer_callback env s tm k)) = next_timer s"
proof -
  let ?s2 = "s\<lparr>rejections := rejections s @ rejected env k (t_extras tm) (t_action tm),
                events := events s @ [dispatch_of env k (t_extras tm) (t_action tm)],
                timers_running := delete_timer (t_handle tm) (timers_running s)\<rparr>"
  have cb: "timer_callback env s tm k =
      (if k \<notin> snd ` set (delete_timer (t_handle tm) (timers_running s))
       then setControlIsRunning ?s2 k False None else ?s2, Returns ())"
    by (simp add: timer_callback_def runAction_calm[OF assms] Let_def find_owner)
  have r2: "is_running ?s2 c = is_running s c" by (rule is_running_cong) simp
  have c2: "can_show_running ?s2 q = can_show_running s q" for q by (rule can_show_cong) simp
  show "snd (timer_callback env s tm k) = Returns ()" by (simp add: cb)
  show "timers_running (fst (timer_callback env s tm k)) = delete_timer (t_handle tm) (timers_running s)"
    by (simp add: cb setControlIsRunning_simps)
  show "events (fst (timer_callback env s tm k)) =
          events s @ [dispatch_of env k (t_extras tm) (t_action tm)] @
          (if k \<notin> snd ` set (delete_timer (t_handle tm) (timers_running s)) \<and> can_show_running s k
           then [SetActionsRunning k False None] else [])"
    unfolding cb using c2[of k] by (simp add: setControlIsRunning_simps del: observers_events_update)
  show "is_running (fst (timer_callback env s tm k)) c =
          (is_running s c \<and>
           \<not> (k = c \<and> c \<notin> snd ` set (delete_timer (t_handle tm) (timers_running s)) \<and> can_show_running s c))"
    unfolding cb using r2 c2[of k]
    by (auto simp: setControlIsRunning_simps simp del: observers_events_update)
  show "can_show_running (fst (timer_callback env s tm k)) c = can_show_running s c"
    unfolding cb using c2[of c]
    by (simp add: setControlIsRunning_simps del: observers_events_update)
  show "next_timer (fst (timer_callback env s tm k)) = next_timer s"
    by (simp add: cb setControlIsRunning_simps)
qed















lemma ex_single_delayed_log:
  "map_option (events \<circ> fst)
     (fire ex_env
        (fst (runMultipleActions ex_env ex_init [ex_action ''a'' (DelayNumber 100) False] ''X'' False None)) 0) =
   Some [SetTimeout 0 (ex_action ''a'' (DelayNumber 100) False) ''X'' 100,
         SetActionsRunning ''X'' True None,
         ActionRun ''conn'' (ex_action ''a'' (DelayNumber 100) False) ''X'' ex_extras,
         SetActionsRunning ''X'' False None]"
  unfolding runMultipleActions_def enabled_actions_def ex_make_extras
  by (simp add: fire_def timer_callback_def delete_timer_def ex_action_def
      effective_delays_def delay_time_def get_property_def set_property_def prototype_names_def
      coerce_delay_def runAction_def ex_connection_def
      set_timeout_def setControlIsRunning_def setActionsRunning_def
      getControl_def ex_env_fields ex_init_def ex_control_def ex_extras_def ex_extras_of_def Let_def)

section \<open>Feedback values\<close>

text \<open>
  Claim C9 says that each control is forwarded exactly its own group. The code keeps a
  group in a plain object, and for the feedback id \<^verbatim>\<open>__proto__\<close> it does something
  else: the assignment of the value to that key creates no property. For the batch of
  the single tuple (A, \<^verbatim>\<open>__proto__\<close>, true) the group of control A maps that id to true,
  and control A receives an empty object.
\<close>

theorem proto_feedback_id_is_dropped:
  "group_of ''A'' ex_proto_batch ''__proto__'' = Some (BoolValue True) \<and>
   can_update_feedbacks ex_feedback_init ''A'' \<and>
   updateFeedbackValues ex_feedback_init ''conn'' ex_proto_batch =
     Some (ex_feedback_init\<lparr>events := [UpdateFeedbackValues ''A'' ''conn'' []]\<rparr>) \<and>
   map_option (delivered ''A'' \<circ> events) (updateFeedbackValues ex_feedback_init ''conn'' ex_proto_batch) =
     Some [(''conn'', [])]"
  by (simp add: group_of_def ex_proto_batch_def updateFeedbackValues_def assign_def
      object_entries_def array_index_def prototype_names_def can_update_feedbacks_def
      getControl_def ex_feedback_init_def ex_control_def)

text \<open>
  For the batch of the specification the code does what the claim says: control A
  receives f1: true and f3: false, control B receives f2: false.
\<close>

lemma ex_batch_log:
  "updateFeedbackValues ex_feedback_init ''conn'' ex_batch =
     Some (ex_feedback_init\<lparr>events :=
       [UpdateFeedbackValues ''A'' ''conn'' [(''f1'', BoolValue True), (''f3'', BoolValue False)],
        UpdateFeedbackValues ''B'' ''conn'' [(''f2'', BoolValue False)]]\<rparr>)"
  by (simp add: ex_batch_def updateFeedbackValues_def assign_def
      object_entries_def array_index_def prototype_names_def
      getControl_def ex_feedback_init_def ex_control_def)

lemma obj_get_obj_set [simp]:
  "obj_get (obj_set k v kvs) k' = (if k' = k then Some v else obj_get kvs k')"
  by (induction kvs) auto

lemma obj_get_map_of: "obj_get kvs k = map_of kvs k"
  by (induction kvs) auto

lemma keys_obj_set:
  "map fst (obj_set k v kvs) = (if k \<in> fst ` set kvs then map fst kvs else map fst kvs @ [k])"
proof (induction kvs)
  case Nil
  then show ?case by simp
next
  case (Cons kv kvs)
  obtain k' v' where kv: "kv = (k', v')" by (cases kv)
  show ?case using Cons.IH unfolding kv by (cases "k' = k") force+
qed

lemma distinct_obj_set: "distinct (map fst kvs) \<Longrightarrow> distinct (map fst (obj_set k v kvs))"
  by (simp add: keys_obj_set)

lemma set_obj_set: "set (obj_set k v kvs) \<subseteq> insert (k, v) (set kvs)"
  by (induction kvs) (auto split: if_splits)

lemma keyset_obj_set: "fst ` set (obj_set k v kvs) = insert k (fst ` set kvs)"
proof -
  have "set (map fst (obj_set k v kvs)) = insert k (set (map fst kvs))"
    unfolding keys_obj_set by auto
  then show ?thesis by simp
qed

lemma obj_get_None: "obj_get kvs k = None \<longleftrightarrow> k \<notin> fst ` set kvs"
  by (induction kvs) (auto split: if_splits)

lemma obj_get_Some_mem: "obj_get kvs k = Some v \<Longrightarrow> (k, v) \<in> set kvs"
  by (induction kvs) (auto split: if_splits)

lemma grp_of_obj_set: "grp_of (obj_set k g vals) c = (if c = k then g else grp_of vals c)"
  by (simp add: grp_of_def)

lemma grp_of_distinct:
  "\<forall>g \<in> snd ` set vals. distinct (map fst g) \<Longrightarrow> distinct (map fst (grp_of vals c))"
  by (auto simp: grp_of_def split: option.splits dest!: obj_get_Some_mem)

lemma group_values_Cons:
  assumes "fb_controlId item \<notin> set prototype_names" and "fb_id item \<noteq> ''__proto__''"
  shows "group_values (item # rest) vals =
     group_values rest
       (obj_set (fb_controlId item)
          (obj_set (fb_id item) (fb_value item) (grp_of vals (fb_controlId item))) vals)"
  using assms by (simp add: grp_of_def assign_def split: option.splits)

lemma find_snoc:
  "find P (xs @ [x]) = (case find P xs of Some y \<Rightarrow> Some y | None \<Rightarrow> if P x then Some x else None)"
  by (induction xs) auto

lemma group_values_plain:
  assumes "\<forall>item \<in> set batch. fb_controlId item \<notin> set prototype_names \<and> fb_id item \<noteq> ''__proto__''"
  shows "\<exists>vals'. group_values batch vals = Some vals'
     \<and> fst ` set vals' = fst ` set vals \<union> fb_controlId ` set batch
     \<and> (distinct (map fst vals) \<longrightarrow> distinct (map fst vals'))
     \<and> ((\<forall>g \<in> snd ` set vals. distinct (map fst g)) \<longrightarrow> (\<forall>g \<in> snd ` set vals'. distinct (map fst g)))
     \<and> (\<forall>c f. obj_get (grp_of vals' c) f =
           (case find (\<lambda>i. fb_controlId i = c \<and> fb_id i = f) (rev batch) of
              Some i \<Rightarrow> Some (fb_value i)
            | None \<Rightarrow> obj_get (grp_of vals c) f))"
  using assms
proof (induction batch arbitrary: vals)
  case Nil
  then show ?case by simp
next
  case (Cons item rest)
  let ?g = "obj_set (fb_id item) (fb_value item) (grp_of vals (fb_controlId item))"
  let ?v = "obj_set (fb_controlId item) ?g vals"
  have p: "fb_controlId item \<notin> set prototype_names" "fb_id item \<noteq> ''__proto__''"
    and r: "\<forall>item \<in> set rest. fb_controlId item \<notin> set prototype_names \<and> fb_id item \<noteq> ''__proto__''"
    using Cons.prems by simp_all
  from Cons.IH[OF r, of ?v] obtain vals' where v: "group_values rest ?v = Some vals'"
    and k: "fst ` set vals' = fst ` set ?v \<union> fb_controlId ` set rest"
    and d: "distinct (map fst ?v) \<longrightarrow> distinct (map fst vals')"
    and i: "(\<forall>g \<in> snd ` set ?v. distinct (map fst g)) \<longrightarrow> (\<forall>g \<in> snd ` set vals'. distinct (map fst g))"
    and l: "\<forall>c f. obj_get (grp_of vals' c) f =
           (case find (\<lambda>i. fb_controlId i = c \<and> fb_id i = f) (rev rest) of
              Some i \<Rightarrow> Some (fb_value i)
            | None \<Rightarrow> obj_get (grp_of ?v c) f)"
    by (elim exE conjE)
  have g: "group_values (item # rest) vals = Some vals'"
    using group_values_Cons[OF p] v by simp
  have k': "fst ` set vals' = fst ` set vals \<union> fb_controlId ` set (item # rest)"
    unfolding k keyset_obj_set by auto
  have d': "distinct (map fst vals) \<longrightarrow> distinct (map fst vals')"
    using d by (simp add: distinct_obj_set)
  have i': "(\<forall>g \<in> snd ` set vals. distinct (map fst g)) \<longrightarrow> (\<forall>g \<in> snd ` set vals'. distinct (map fst g))"
  proof
    assume a: "\<forall>g \<in> snd ` set vals. distinct (map fst g)"
    have "distinct (map fst ?g)"
      by (rule distinct_obj_set) (rule grp_of_distinct[OF a])
    then have "\<forall>g \<in> snd ` set ?v. distinct (map fst g)"
      using a set_obj_set[of "fb_controlId item" ?g vals] by fastforce
    with i show "\<forall>g \<in> snd ` set vals'. distinct (map fst g)" by blast
  qed
  have l': "\<forall>c f. obj_get (grp_of vals' c) f =
           (case find (\<lambda>i. fb_controlId i = c \<and> fb_id i = f) (rev (item # rest)) of
              Some i \<Rightarrow> Some (fb_value i)
            | None \<Rightarrow> obj_get (grp_of vals c) f)"
    using l by (simp add: find_snoc grp_of_obj_set split: option.splits)
  show ?case using g k' d' i' l' by blast
qed

lemma group_of_find:
  "group_of c batch f = map_option fb_value (find (\<lambda>i. fb_controlId i = c \<and> fb_id i = f) (rev batch))"
proof (induction batch)
  case Nil
  then show ?case by (simp add: group_of_def)
next
  case (Cons item rest)
  have "group_of c (item # rest) f =
      (case group_of c rest f of
         Some v \<Rightarrow> Some v
       | None \<Rightarrow> if fb_controlId item = c \<and> fb_id item = f then Some (fb_value item) else None)"
    by (simp add: group_of_def map_add_def split: option.splits)
  then show ?case unfolding Cons.IH by (simp add: find_snoc split: option.splits)
qed

lemma set_object_entries [simp]: "set (object_entries obj) = set obj"
  by (auto simp: object_entries_def)

lemma distinct_object_entries:
  "distinct (map fst obj) \<Longrightarrow> distinct (map fst (object_entries obj))"
  by (auto simp: object_entries_def distinct_map inj_on_def)

lemma map_of_object_entries:
  "distinct (map fst obj) \<Longrightarrow> map_of (object_entries obj) = map_of obj"
  using map_of_inject_set[OF distinct_object_entries, of obj obj] by simp

lemma controls_pass_values [simp]: "controls (pass_values inst vals s) = controls s"
  by (induction vals arbitrary: s) (auto simp: getControl_def split: option.splits)

lemma can_update_events [simp]: "can_update_feedbacks (s\<lparr>events := e\<rparr>) c = can_update_feedbacks s c"
  by (simp add: can_update_feedbacks_def getControl_def)

lemma delivered_pass_values:
  "delivered c (events (pass_values inst vals s)) =
     delivered c (events s) @
       map (\<lambda>(k, g). (inst, object_entries g)) (filter (\<lambda>(k, g). k = c \<and> can_update_feedbacks s k) vals)"
proof (induction vals arbitrary: s)
  case Nil
  then show ?case by simp
next
  case (Cons kv rest)
  obtain k g where kv: "kv = (k, g)" by (cases kv)
  show ?case
    unfolding kv
    by (simp add: Cons.IH can_update_feedbacks_def getControl_def split: option.splits)
qed

lemma filter_key_and:
  "filter (\<lambda>(k, g). k = c \<and> P k) kvs = (if P c then filter (\<lambda>(k, g). k = c) kvs else [])"
  by (induction kvs) auto

lemma filter_key_distinct:
  "distinct (map fst kvs) \<Longrightarrow>
   filter (\<lambda>(k, g). k = c) kvs = (case map_of kvs c of None \<Rightarrow> [] | Some g \<Rightarrow> [(c, g)])"
proof (induction kvs)
  case Nil
  then show ?case by simp
next
  case (Cons kv kvs)
  obtain k g where kv: "kv = (k, g)" by (cases kv)
  have "k = c \<Longrightarrow> filter (\<lambda>(k, g). k = c) kvs = []"
    using Cons.prems kv by (force simp: filter_empty_conv)
  then show ?case using Cons kv by (auto split: option.splits)
qed

text \<open>
  And so for every batch in which no control id is a name of \<^verbatim>\<open>Object.prototype\<close> and
  no feedback id is \<^verbatim>\<open>__proto__\<close>: \<^verbatim>\<open>updateFeedbackValues\<close> forwards to each control that
  occurs in the batch (and has a feedback store) one call with exactly its own group, in
  which each feedback id has the value of the last tuple of the batch for that control
  and id; a control that does not occur receives nothing.
\<close>

lemma feedback_values_grouped_by_control:
  assumes "\<forall>item \<in> set batch. fb_controlId item \<notin> set prototype_names \<and> fb_id item \<noteq> ''__proto__''"
  shows "\<exists>s'. updateFeedbackValues s instanceId batch = Some s'
     \<and> (c \<notin> fb_controlId ` set batch \<or> \<not> can_update_feedbacks s c \<longrightarrow>
          delivered c (events s') = delivered c (events s))
     \<and> (c \<in> fb_controlId ` set batch \<and> can_update_feedbacks s c \<longrightarrow>
          (\<exists>g. delivered c (events s') = delivered c (events s) @ [(instanceId, g)]
             \<and> distinct (map fst g) \<and> map_of g = group_of c batch))"
proof -
  have gn: "grp_of [] q = []" for q :: control_id by (simp add: grp_of_def)
  let ?e = "[] :: (control_id \<times> (string \<times> feedback_value) list) list"
  from group_values_plain[OF assms, of ?e] obtain vals where
    v: "group_values batch [] = Some vals"
    and k0: "fst ` set vals = fst ` set ?e \<union> fb_controlId ` set batch"
    and d0: "distinct (map fst ?e) \<longrightarrow> distinct (map fst vals)"
    and i0: "(\<forall>g \<in> snd ` set ?e. distinct (map fst g)) \<longrightarrow> (\<forall>g \<in> snd ` set vals. distinct (map fst g))"
    and l0: "\<forall>c f. obj_get (grp_of vals c) f =
           (case find (\<lambda>i. fb_controlId i = c \<and> fb_id i = f) (rev batch) of
              Some i \<Rightarrow> Some (fb_value i)
            | None \<Rightarrow> obj_get (grp_of ?e c) f)"
    by (elim exE conjE)
  have k: "fst ` set vals = fb_controlId ` set batch" using k0 by simp
  have d: "distinct (map fst vals)" using d0 by simp
  have i: "\<forall>g \<in> snd ` set vals. distinct (map fst g)" using i0 by simp
  have l: "\<forall>c f. obj_get (grp_of vals c) f =
           (case find (\<lambda>i. fb_controlId i = c \<and> fb_id i = f) (rev batch) of
              Some i \<Rightarrow> Some (fb_value i)
            | None \<Rightarrow> None)"
    using l0 by (simp add: gn split: option.splits)
  let ?s' = "pass_values instanceId (object_entries vals) s"
  have u: "updateFeedbackValues s instanceId batch = Some ?s'"
    by (simp add: updateFeedbackValues_def v)
  have de: "distinct (map fst (object_entries vals))" by (rule distinct_object_entries[OF d])
  have f: "filter (\<lambda>(k, g). k = c \<and> can_update_feedbacks s k) (object_entries vals) =
        (if can_update_feedbacks s c
         then (case map_of vals c of None \<Rightarrow> [] | Some g \<Rightarrow> [(c, g)]) else [])"
    unfolding filter_key_and filter_key_distinct[OF de] map_of_object_entries[OF d] by simp
  have dl: "delivered c (events ?s') =
      delivered c (events s) @
      (if can_update_feedbacks s c
       then (case map_of vals c of None \<Rightarrow> [] | Some g \<Rightarrow> [(instanceId, object_entries g)]) else [])"
    unfolding delivered_pass_values f by (simp split: option.splits)
  have none: "c \<notin> fb_controlId ` set batch \<Longrightarrow> map_of vals c = None"
    using k obj_get_None[of vals c] by (simp add: obj_get_map_of)
  have some: "c \<in> fb_controlId ` set batch \<Longrightarrow> map_of vals c = Some (grp_of vals c)"
    using k obj_get_None[of vals c] by (auto simp: obj_get_map_of grp_of_def split: option.splits)
  have dg: "distinct (map fst (grp_of vals c))" by (rule grp_of_distinct[OF i])
  have mg: "map_of (object_entries (grp_of vals c)) = group_of c batch"
  proof
    fix f
    show "map_of (object_entries (grp_of vals c)) f = group_of c batch f"
      unfolding map_of_object_entries[OF dg] group_of_find
      using l[rule_format, of c f] by (simp add: obj_get_map_of split: option.splits)
  qed
  have p1: "c \<notin> fb_controlId ` set batch \<or> \<not> can_update_feedbacks s c \<longrightarrow>
          delivered c (events ?s') = delivered c (events s)"
    unfolding dl using none by auto
  have p2: "c \<in> fb_controlId ` set batch \<and> can_update_feedbacks s c \<longrightarrow>
          (\<exists>g. delivered c (events ?s') = delivered c (events s) @ [(instanceId, g)]
             \<and> distinct (map fst g) \<and> map_of g = group_of c batch)"
    unfolding dl using some mg distinct_object_entries[OF dg] by auto
  show ?thesis using u p1 p2 by blast
qed

section \<open>The flag follows the pending timers elsewhere\<close>

text \<open>
  Outside the case of claim C4 the flag follows the pending timers. From a state in
  which the invariant holds, every state reached by runs whose enabled actions neither
  abort delayed actions, nor press or rotate a control, nor throw, by timer firings and by
  \<^verbatim>\<open>abortControlDelayed\<close>, \<^verbatim>\<open>abortPageDelayed\<close> and \<^verbatim>\<open>abortAllDelayed\<close> satisfies it
  again: a control with the running indicator is running exactly when it owns a pending
  timer.
\<close>

lemma steady_abortControl: "steady env s \<Longrightarrow> steady env (abortControlDelayed s k u)"
proof -
  assume st: "steady env s"
  let ?s' = "abortControlDelayed s k u"
  have t: "timers_running ?s' = filter (\<lambda>(tm, q). q \<noteq> k) (timers_running s)"
    and n: "next_timer ?s' = next_timer s"
    by (simp_all add: abortControlDelayed_def setControlIsRunning_simps)
  have wf: "timers_wf ?s'"
    using st unfolding steady_def timers_wf_def pending_handles_def t n
    by (auto simp: distinct_map_filter list_all_iff)
  have na: "pending_calm env ?s'"
    using st unfolding steady_def pending_calm_def t by (auto simp: list_all_iff)
  have r: "is_running ?s' c = (if c = k \<and> can_show_running s k then False else is_running s c)" for c
    by (simp add: abortControlDelayed_def setControlIsRunning_simps)
  have inv: "indicator_inv ?s'"
    using st unfolding steady_def indicator_inv_def by (auto simp: r)
  show ?thesis using wf na inv by (simp add: steady_def)
qed

lemma steady_abortPage_loop: "steady env s \<Longrightarrow> steady env (abortPage_loop env p sk bs s)"
  by (induction bs arbitrary: s) (simp_all add: Let_def steady_abortControl)

lemma steady_abortAll: "steady env s \<Longrightarrow> steady env (abortAllDelayed s)"
proof -
  assume st: "steady env s"
  let ?s' = "abortAllDelayed s"
  have t: "timers_running ?s' = []"
    by (simp add: abortAllDelayed_def redraw_controls_simps)
  have r: "is_running ?s' c = (is_running s c \<and> \<not> (owns_timer s c \<and> can_show_running s c))" for c
    by (simp add: abortAllDelayed_def redraw_controls_running affected_controls_set owns_timer_def)
  have inv: "indicator_inv ?s'"
    using st unfolding steady_def indicator_inv_def by (auto simp: r)
  show ?thesis using inv by (simp add: steady_def timers_wf_def pending_calm_def pending_handles_def t)
qed

lemma find_SomeD: "find P xs = Some x \<Longrightarrow> x \<in> set xs \<and> P x"
  by (induction xs) (auto split: if_splits)

lemma owners_delete_other:
  assumes "distinct (map (\<lambda>(tm, q). t_handle tm) ts)" and "(tm, k) \<in> set ts" and "c \<noteq> k"
  shows "(c \<in> snd ` set (delete_timer (t_handle tm) ts)) = (c \<in> snd ` set ts)"
proof
  assume "c \<in> snd ` set (delete_timer (t_handle tm) ts)"
  then show "c \<in> snd ` set ts" by (auto simp: delete_timer_def)
next
  assume "c \<in> snd ` set ts"
  then obtain u where u: "(u, c) \<in> set ts" by auto
  have "t_handle u \<noteq> t_handle tm"
  proof
    assume e: "t_handle u = t_handle tm"
    have "inj_on (\<lambda>(tm, q). t_handle tm) (set ts)" using assms(1) by (simp add: distinct_map)
    from inj_onD[OF this _ u assms(2)] e have "(u, c) = (tm, k)" by simp
    with assms(3) show False by simp
  qed
  with u have "(u, c) \<in> set (delete_timer (t_handle tm) ts)" by (simp add: delete_timer_def)
  then show "c \<in> snd ` set (delete_timer (t_handle tm) ts)" by force
qed

lemma steady_fire:
  assumes st: "steady env s" and f: "fire env s h = Some (s', r)"
  shows "steady env s'" and "r = Returns ()"
proof -
  from f obtain tm k where fnd: "find (\<lambda>(tm, q). t_handle tm = h) (timers_running s) = Some (tm, k)"
    and s'r: "(s', r) = timer_callback env s tm k"
    by (auto simp: fire_def split: option.splits)
  from find_SomeD[OF fnd] have mem: "(tm, k) \<in> set (timers_running s)" and h: "t_handle tm = h" by auto
  have d: "distinct (map (\<lambda>(tm, q). t_handle tm) (timers_running s))"
    using st by (simp add: steady_def timers_wf_def pending_handles_def)
  have na: "calm env k (t_extras tm) (t_action tm)"
    using st mem by (auto simp: steady_def pending_calm_def list_all_iff)
  note cb = timer_callback_calm[OF na, where s = s]
  have s': "s' = fst (timer_callback env s tm k)" using s'r by (metis fst_conv)
  show "r = Returns ()" using s'r cb(1) by (metis snd_conv)
  have t: "timers_running s' = delete_timer h (timers_running s)" unfolding s' by (simp add: cb(2) h)
  have nx: "next_timer s' = next_timer s" unfolding s' by (rule cb(6))
  have wf: "timers_wf s'"
    using st unfolding steady_def timers_wf_def pending_handles_def t nx delete_timer_def
    by (auto simp: distinct_map_filter list_all_iff)
  have nab: "pending_calm env s'"
    using st unfolding steady_def pending_calm_def t delete_timer_def by (auto simp: list_all_iff)
  have inv: "indicator_inv s'"
    unfolding indicator_inv_def
  proof (intro allI impI)
    fix c assume "can_show_running s' c"
    then have cs: "can_show_running s c" unfolding s' by (simp add: cb(5))
    from st cs have i: "is_running s c = owns_timer s c" by (simp add: steady_def indicator_inv_def)
    have o': "owns_timer s' c = (c \<in> snd ` set (delete_timer (t_handle tm) (timers_running s)))"
      by (simp add: owns_timer_def t h)
    have r': "is_running s' c =
        (is_running s c \<and> \<not> (k = c \<and> c \<notin> snd ` set (delete_timer (t_handle tm) (timers_running s))))"
      unfolding s' using cb(4)[where c = c] cs by simp
    show "is_running s' c = owns_timer s' c"
    proof (cases "c = k")
      case True
      have "owns_timer s c" using mem True by (force simp: owns_timer_def)
      then show ?thesis using i r' o' True by auto
    next
      case False
      from owners_delete_other[OF d mem False]
      show ?thesis using i r' o' False by (auto simp: owns_timer_def)
    qed
  qed
  show "steady env s'" using wf nab inv by (simp add: steady_def)
qed

lemma run_loop_calm:
  assumes "timers_wf s" and "pending_calm env s" and "list_all (calm env c x) acts"
  shows "snd (run_loop env c x tab acts (s, hasd)) = Returns ()
     \<and> timers_wf (fst (fst (run_loop env c x tab acts (s, hasd))))
     \<and> pending_calm env (fst (fst (run_loop env c x tab acts (s, hasd))))
     \<and> controls (fst (fst (run_loop env c x tab acts (s, hasd)))) = controls s
     \<and> (\<forall>k. owns_timer (fst (fst (run_loop env c x tab acts (s, hasd)))) k =
            (owns_timer s k \<or> (k = c \<and> (\<exists>a \<in> set acts. timed env tab a))))"
  using assms
proof (induction acts arbitrary: s hasd)
  case Nil
  then show ?case by simp
next
  case (Cons a acts)
  have ca: "calm env c x a" and cr: "list_all (calm env c x) acts" using Cons.prems(3) by simp_all
  show ?case
  proof (cases "timed env tab a")
    case True
    let ?s1 = "set_timeout s a c x (timer_delay env tab a)"
    have wf: "timers_wf ?s1"
      using Cons.prems(1) by (auto simp: timers_wf_def pending_handles_def set_timeout_def list_all_iff)
    have na: "pending_calm env ?s1"
      using Cons.prems(2) ca by (simp add: pending_calm_def set_timeout_def)
    have c1: "controls ?s1 = controls s" by (simp add: set_timeout_def)
    have o1: "owns_timer ?s1 k = (owns_timer s k \<or> k = c)" for k
      by (auto simp: owns_timer_def set_timeout_def)
    from Cons.IH[OF wf na cr, of True] True c1 o1
    show ?thesis by (auto simp: run_loop_Cons simp del: run_loop.simps)
  next
    case False
    let ?s1 = "s\<lparr>rejections := rejections s @ rejected env c x a,
                  events := events s @ [dispatch_of env c x a]\<rparr>"
    have ra: "runAction env s a c x = (?s1, Returns ())" by (rule runAction_calm[OF ca])
    have wf: "timers_wf ?s1"
      using Cons.prems(1) by (simp add: timers_wf_def pending_handles_def)
    have na: "pending_calm env ?s1"
      using Cons.prems(2) by (simp add: pending_calm_def)
    have o1: "owns_timer ?s1 k = owns_timer s k" for k
      by (simp add: owns_timer_def)
    from Cons.IH[OF wf na cr, of hasd] False o1
    show ?thesis by (auto simp: run_loop_Cons ra simp del: run_loop.simps)
  qed
qed

lemma steady_run:
  assumes st: "steady env s"
    and na: "list_all (calm env c (make_extras env c dev)) (enabled_actions actions0)"
  shows "steady env (fst (runMultipleActions env s actions0 c rel dev))"
    and "snd (runMultipleActions env s actions0 c rel dev) = Returns ()"
proof -
  let ?acts = "enabled_actions actions0"
  let ?tab = "effective_delays env rel ?acts"
  let ?r = "run_loop env c (make_extras env c dev) ?tab ?acts (s, False)"
  let ?s1 = "fst (fst ?r)"
  from st have wf0: "timers_wf s" and na0: "pending_calm env s" and inv0: "indicator_inv s"
    by (simp_all add: steady_def)
  from run_loop_calm[OF wf0 na0 na, of ?tab False]
  have rr: "snd ?r = Returns ()"
    and wf1: "timers_wf ?s1" and na1: "pending_calm env ?s1" and c1: "controls ?s1 = controls s"
    and o1: "\<And>k. owns_timer ?s1 k = (owns_timer s k \<or> (k = c \<and> (\<exists>a \<in> set ?acts. timed env ?tab a)))"
    by blast+
  have hd: "snd (fst ?r) = (\<exists>a \<in> set ?acts. timed env ?tab a)"
    using scheduled_run_loop_returns(2)[OF rr] by simp
  have r1: "is_running ?s1 k = is_running s k" for k by (rule is_running_cong[OF c1])
  have cs1: "can_show_running ?s1 k = can_show_running s k" for k by (rule can_show_cong[OF c1])
  have res: "runMultipleActions env s actions0 c rel dev =
      (if ?acts = [] then s
       else if snd (fst ?r) then setControlIsRunning ?s1 c True None else ?s1, Returns ())"
    using rr by (simp add: run_cases Let_def)
  show "snd (runMultipleActions env s actions0 c rel dev) = Returns ()" by (simp add: res)
  show "steady env (fst (runMultipleActions env s actions0 c rel dev))"
  proof (cases "?acts = []")
    case True
    then show ?thesis using st by (simp add: res)
  next
    case False
    show ?thesis
    proof (cases "snd (fst ?r)")
      case True
      let ?s2 = "setControlIsRunning ?s1 c True None"
      have wf2: "timers_wf ?s2" using wf1
        by (simp add: timers_wf_def pending_handles_def setControlIsRunning_simps)
      have na2: "pending_calm env ?s2" using na1
        by (simp add: pending_calm_def setControlIsRunning_simps)
      have inv2: "indicator_inv ?s2"
        unfolding indicator_inv_def
        using inv0 True hd
        by (auto simp: setControlIsRunning_simps r1 o1 cs1 indicator_inv_def)
      show ?thesis unfolding res using True False wf2 na2 inv2 by (simp add: steady_def)
    next
      case nd: False
      have inv1: "indicator_inv ?s1"
        unfolding indicator_inv_def using inv0 nd hd
        by (auto simp: r1 o1 cs1 indicator_inv_def)
      show ?thesis unfolding res using nd False wf1 na1 inv1 by (simp add: steady_def)
    qed
  qed
qed

lemma reaches_steady:
  assumes "steady env s0" and "reaches env s0 s"
  shows "steady env s"
  using assms(2,1)
proof (induction rule: reaches.induct)
  case start
  then show ?case by simp
next
  case (run s controlId deviceid actions0 relative_delay)
  then show ?case by (simp add: steady_run)
next
  case (timer s h s' r)
  then show ?case using steady_fire(1) by blast
next
  case (abort_control s controlId skipUp)
  then show ?case by (simp add: steady_abortControl)
next
  case (abort_page s page skipControlIds)
  then show ?case by (simp add: abortPageDelayed_def steady_abortPage_loop)
next
  case (abort_all s)
  then show ?case by (simp add: steady_abortAll)
qed

lemma running_iff_pending_without_aborts:
  assumes "steady env s0" and "reaches env s0 s" and "can_show_running s c"
  shows "is_running s c = owns_timer s c"
  using reaches_steady[OF assms(1,2)] assms(3) by (simp add: steady_def indicator_inv_def)

lemma steady_ex_init: "steady ex_env ex_init"
  by (simp add: steady_def timers_wf_def pending_calm_def indicator_inv_def pending_handles_def
      ex_init_def is_running_def owns_timer_def can_show_running_def getControl_def ex_control_def)

end
